theory Spec2Isabelle
  imports Main "HOL-Library.Word"
begin

unbundle bit_operations_syntax

section \<open>Bytes, words and the little-endian stream\<close>

text \<open>
  The capture tool (\<^verbatim>\<open>intel_dump_gpu.c\<close>) writes its trace with \<^verbatim>\<open>fwrite\<close>, the
  decoder (\<^verbatim>\<open>aubinator.c\<close>) reads it back as an array of 32-bit words. A stream is a
  list of bytes; \<^verbatim>\<open>dword_out\<close> stores a 32-bit word in little-endian order, as the
  x86 hosts of both tools do.
\<close>

type_synonym byte = "8 word"

definition le32 :: "32 word \<Rightarrow> byte list" where
  "le32 w = [ucast w, ucast (drop_bit 8 w), ucast (drop_bit 16 w), ucast (drop_bit 24 w)]"

definition le64 :: "64 word \<Rightarrow> byte list" where
  "le64 w = le32 (ucast w) @ le32 (ucast (drop_bit 32 w))"

fun of_le :: "byte list \<Rightarrow> 'a::len word" where
  "of_le [] = 0"
| "of_le (b # bs) = ucast b OR push_bit 8 (of_le bs)"

definition load32 :: "byte list \<Rightarrow> nat \<Rightarrow> 32 word" where
  "load32 mem pos = of_le (take 4 (drop pos mem))"

definition load64 :: "byte list \<Rightarrow> nat \<Rightarrow> 64 word" where
  "load64 mem pos = of_le (take 8 (drop pos mem))"

text \<open>
  A store through a pointer into a block of memory: the bytes of the block from \<open>pos\<close> on
  are replaced. Nothing checks that the store ends inside the block. A store that runs
  past its end also overwrites what lies behind the block (undefined behaviour in C); the
  call returns all the same, and of the block itself the bytes up to its end are changed.
\<close>

definition store_through :: "byte list \<Rightarrow> nat \<Rightarrow> byte list \<Rightarrow> byte list" where
  "store_through mem pos bs = take (length mem) (take pos mem @ bs @ drop (pos + length bs) mem)"

text \<open>
  How a run of either tool can end early: \<^verbatim>\<open>fail_if\<close> prints its message and raises
  \<^verbatim>\<open>SIGTRAP\<close> (\<open>Trap\<close>); a null or out-of-range pointer is dereferenced
  (\<open>Fault\<close>); an \<^verbatim>\<open>assert\<close> fails (\<open>Assert_failed\<close>); the decoder calls
  \<^verbatim>\<open>exit(EXIT_FAILURE)\<close> (\<open>Exit_failure\<close>); a loop counter wraps around and the
  loop never ends (\<open>Endless\<close>).
\<close>

datatype error = Trap string | Fault | Assert_failed | Exit_failure | Endless

section \<open>Constants of the kernel interface and of the AUB format\<close>

text \<open>
  Modelled from the spec: the headers \<^verbatim>\<open>i915_drm.h\<close> and \<^verbatim>\<open>intel_aub.h\<close> are
  included by the sources but are not part of them. The record header words follow the
  layout the decoder itself uses (\<^verbatim>\<open>MAKE_HEADER(type, opcode, subopcode)\<close> in
  \<^verbatim>\<open>aubinator.c\<close>: class in bits 31-29, opcode in bits 28-23, subopcode in bits
  22-16, length in bits 15-0) and the address-space tags follow the decoder's
  \<^verbatim>\<open>p[3] >> 28\<close> switch (0 GGTT, 1 local, 2 physical, 4 GGTT entry).
\<close>

definition I915_EXEC_RING_MASK :: "64 word" where "I915_EXEC_RING_MASK = 7"
definition I915_EXEC_DEFAULT :: "32 word" where "I915_EXEC_DEFAULT = 0"
definition I915_EXEC_RENDER :: "32 word" where "I915_EXEC_RENDER = 1"
definition I915_EXEC_BSD :: "32 word" where "I915_EXEC_BSD = 2"
definition I915_EXEC_BLT :: "32 word" where "I915_EXEC_BLT = 3"
definition I915_EXEC_HANDLE_LUT :: "64 word" where "I915_EXEC_HANDLE_LUT = push_bit 12 1"
definition I915_EXEC_BATCH_FIRST :: "64 word" where "I915_EXEC_BATCH_FIRST = push_bit 18 1"
definition EXEC_OBJECT_PINNED :: "64 word" where "EXEC_OBJECT_PINNED = push_bit 4 1"

definition MAKE_HEADER :: "32 word \<Rightarrow> 32 word \<Rightarrow> 32 word \<Rightarrow> 32 word" where
  "MAKE_HEADER type opcode subopcode =
     push_bit 29 type OR push_bit 23 opcode OR push_bit 16 subopcode"

definition TYPE_AUB :: "32 word" where "TYPE_AUB = 0x7"
definition OPCODE_AUB :: "32 word" where "OPCODE_AUB = 0x01"
definition SUBOPCODE_HEADER :: "32 word" where "SUBOPCODE_HEADER = 0x05"
definition SUBOPCODE_BLOCK :: "32 word" where "SUBOPCODE_BLOCK = 0x41"
definition SUBOPCODE_BMP :: "32 word" where "SUBOPCODE_BMP = 0x1e"
definition OPCODE_NEW_AUB :: "32 word" where "OPCODE_NEW_AUB = 0x2e"
definition SUBOPCODE_REG_POLL :: "32 word" where "SUBOPCODE_REG_POLL = 0x02"
definition SUBOPCODE_REG_WRITE :: "32 word" where "SUBOPCODE_REG_WRITE = 0x03"
definition SUBOPCODE_MEM_POLL :: "32 word" where "SUBOPCODE_MEM_POLL = 0x05"
definition SUBOPCODE_MEM_WRITE :: "32 word" where "SUBOPCODE_MEM_WRITE = 0x06"
definition SUBOPCODE_VERSION :: "32 word" where "SUBOPCODE_VERSION = 0x0e"

definition CMD_AUB_HEADER :: "32 word" where
  "CMD_AUB_HEADER = MAKE_HEADER TYPE_AUB OPCODE_AUB SUBOPCODE_HEADER"
definition CMD_AUB_TRACE_HEADER_BLOCK :: "32 word" where
  "CMD_AUB_TRACE_HEADER_BLOCK = MAKE_HEADER TYPE_AUB OPCODE_AUB SUBOPCODE_BLOCK"
definition CMD_MEM_TRACE_REGISTER_POLL :: "32 word" where
  "CMD_MEM_TRACE_REGISTER_POLL = MAKE_HEADER TYPE_AUB OPCODE_NEW_AUB SUBOPCODE_REG_POLL"
definition CMD_MEM_TRACE_REGISTER_WRITE :: "32 word" where
  "CMD_MEM_TRACE_REGISTER_WRITE = MAKE_HEADER TYPE_AUB OPCODE_NEW_AUB SUBOPCODE_REG_WRITE"
definition CMD_MEM_TRACE_MEMORY_WRITE :: "32 word" where
  "CMD_MEM_TRACE_MEMORY_WRITE = MAKE_HEADER TYPE_AUB OPCODE_NEW_AUB SUBOPCODE_MEM_WRITE"
definition CMD_MEM_TRACE_VERSION :: "32 word" where
  "CMD_MEM_TRACE_VERSION = MAKE_HEADER TYPE_AUB OPCODE_NEW_AUB SUBOPCODE_VERSION"

definition AUB_MEM_TRACE_MEMORY_ADDRESS_SPACE_GGTT :: "32 word" where
  "AUB_MEM_TRACE_MEMORY_ADDRESS_SPACE_GGTT = push_bit 28 0"
definition AUB_MEM_TRACE_MEMORY_ADDRESS_SPACE_LOCAL :: "32 word" where
  "AUB_MEM_TRACE_MEMORY_ADDRESS_SPACE_LOCAL = push_bit 28 1"
definition AUB_MEM_TRACE_MEMORY_ADDRESS_SPACE_PHYSICAL :: "32 word" where
  "AUB_MEM_TRACE_MEMORY_ADDRESS_SPACE_PHYSICAL = push_bit 28 2"
definition AUB_MEM_TRACE_MEMORY_ADDRESS_SPACE_GGTT_ENTRY :: "32 word" where
  "AUB_MEM_TRACE_MEMORY_ADDRESS_SPACE_GGTT_ENTRY = push_bit 28 4"

definition AUB_MEM_TRACE_REGISTER_SIZE_DWORD :: "32 word" where
  "AUB_MEM_TRACE_REGISTER_SIZE_DWORD = 0x00020000"
definition AUB_MEM_TRACE_REGISTER_SPACE_MMIO :: "32 word" where
  "AUB_MEM_TRACE_REGISTER_SPACE_MMIO = 0x00000000"

definition AUB_TRACE_MEMTYPE_GTT :: "32 word" where "AUB_TRACE_MEMTYPE_GTT = push_bit 16 0"
definition AUB_TRACE_MEMTYPE_GTT_ENTRY :: "32 word" where
  "AUB_TRACE_MEMTYPE_GTT_ENTRY = push_bit 16 4"
definition AUB_TRACE_OP_DATA_WRITE :: "32 word" where "AUB_TRACE_OP_DATA_WRITE = 0x00000001"
definition AUB_TRACE_OP_COMMAND_WRITE :: "32 word" where
  "AUB_TRACE_OP_COMMAND_WRITE = 0x00000002"
definition AUB_TRACE_OPERATION_MASK :: "32 word" where "AUB_TRACE_OPERATION_MASK = 0x000000ff"
definition AUB_TRACE_TYPE_MASK :: "32 word" where "AUB_TRACE_TYPE_MASK = 0x0000ff00"
definition AUB_TRACE_ADDRESS_SPACE_MASK :: "32 word" where
  "AUB_TRACE_ADDRESS_SPACE_MASK = 0x00ff0000"
definition AUB_TRACE_TYPE_NOTYPE :: "32 word" where "AUB_TRACE_TYPE_NOTYPE = push_bit 8 0"
definition AUB_TRACE_TYPE_BATCH :: "32 word" where "AUB_TRACE_TYPE_BATCH = push_bit 8 1"
definition AUB_TRACE_TYPE_RING_PRB0 :: "32 word" where "AUB_TRACE_TYPE_RING_PRB0 = push_bit 8 2"
definition AUB_TRACE_TYPE_RING_PRB1 :: "32 word" where "AUB_TRACE_TYPE_RING_PRB1 = push_bit 8 3"
definition AUB_TRACE_TYPE_RING_PRB2 :: "32 word" where "AUB_TRACE_TYPE_RING_PRB2 = push_bit 8 4"
definition AUB_MI_BATCH_BUFFER_START :: "32 word" where
  "AUB_MI_BATCH_BUFFER_START = push_bit 23 0x31"
definition MI_BATCH_NON_SECURE_I965 :: "32 word" where
  "MI_BATCH_NON_SECURE_I965 = push_bit 8 1"

section \<open>Address space planner (the static GGTT region)\<close>

definition RING_SIZE :: nat where "RING_SIZE = 1 * 4096"
definition PPHWSP_SIZE :: nat where "PPHWSP_SIZE = 1 * 4096"
definition GEN10_LR_CONTEXT_RENDER_SIZE :: nat where "GEN10_LR_CONTEXT_RENDER_SIZE = 19 * 4096"
definition GEN9_LR_CONTEXT_RENDER_SIZE :: nat where "GEN9_LR_CONTEXT_RENDER_SIZE = 22 * 4096"
definition GEN8_LR_CONTEXT_OTHER_SIZE :: nat where "GEN8_LR_CONTEXT_OTHER_SIZE = 2 * 4096"

definition STATIC_GGTT_MAP_START :: nat where "STATIC_GGTT_MAP_START = 0"
definition RENDER_RING_ADDR :: nat where "RENDER_RING_ADDR = STATIC_GGTT_MAP_START"
definition RENDER_CONTEXT_ADDR :: nat where "RENDER_CONTEXT_ADDR = RENDER_RING_ADDR + RING_SIZE"
definition BLITTER_RING_ADDR :: nat where
  "BLITTER_RING_ADDR = RENDER_CONTEXT_ADDR + PPHWSP_SIZE + GEN10_LR_CONTEXT_RENDER_SIZE"
definition BLITTER_CONTEXT_ADDR :: nat where
  "BLITTER_CONTEXT_ADDR = BLITTER_RING_ADDR + RING_SIZE"
definition VIDEO_RING_ADDR :: nat where
  "VIDEO_RING_ADDR = BLITTER_CONTEXT_ADDR + PPHWSP_SIZE + GEN8_LR_CONTEXT_OTHER_SIZE"
definition VIDEO_CONTEXT_ADDR :: nat where "VIDEO_CONTEXT_ADDR = VIDEO_RING_ADDR + RING_SIZE"
definition STATIC_GGTT_MAP_END :: nat where
  "STATIC_GGTT_MAP_END = VIDEO_CONTEXT_ADDR + PPHWSP_SIZE + GEN8_LR_CONTEXT_OTHER_SIZE"
definition STATIC_GGTT_MAP_SIZE :: nat where
  "STATIC_GGTT_MAP_SIZE = STATIC_GGTT_MAP_END - STATIC_GGTT_MAP_START"

definition PML4_PHYS_ADDR :: "64 word" where
  "PML4_PHYS_ADDR = of_nat STATIC_GGTT_MAP_END"

definition CONTEXT_FLAGS :: "64 word" where "CONTEXT_FLAGS = 0x339"

definition RENDER_CONTEXT_DESCRIPTOR :: "64 word" where
  "RENDER_CONTEXT_DESCRIPTOR = push_bit 62 1 OR of_nat RENDER_CONTEXT_ADDR OR CONTEXT_FLAGS"
definition BLITTER_CONTEXT_DESCRIPTOR :: "64 word" where
  "BLITTER_CONTEXT_DESCRIPTOR = push_bit 62 2 OR of_nat BLITTER_CONTEXT_ADDR OR CONTEXT_FLAGS"
definition VIDEO_CONTEXT_DESCRIPTOR :: "64 word" where
  "VIDEO_CONTEXT_DESCRIPTOR = push_bit 62 3 OR of_nat VIDEO_CONTEXT_ADDR OR CONTEXT_FLAGS"

definition MAX_BO_COUNT :: nat where "MAX_BO_COUNT = 64 * 1024"

definition MEMORY_MAP_SIZE :: nat where "MEMORY_MAP_SIZE = 64 * 1024 * 1024"
definition PTE_SIZE :: nat where "PTE_SIZE = 4"
definition GEN8_PTE_SIZE :: nat where "GEN8_PTE_SIZE = 8"
definition NUM_PT_ENTRIES :: nat where "NUM_PT_ENTRIES = MEMORY_MAP_SIZE div 4096"

text \<open>\<^verbatim>\<open>align_u32(v, a) = (v + a - 1) & ~(a - 1)\<close>, on 32-bit unsigned values.\<close>

definition align_u32 :: "32 word \<Rightarrow> 32 word \<Rightarrow> 32 word" where
  "align_u32 v a = (v + a - 1) AND NOT (a - 1)"


section \<open>Relocations\<close>

record bo =
  size_bo :: "32 word"
  offset_bo :: "64 word"
  map_bo :: "byte list option"

record drm_i915_gem_relocation_entry =
  target_handle :: "32 word"
  delta :: "32 word"
  offset_reloc :: "64 word"

record drm_i915_gem_exec_object2 =
  handle :: "32 word"
  relocs :: "drm_i915_gem_relocation_entry list"
  alignment :: "64 word"
  offset_obj :: "64 word"
  flags_obj :: "64 word"

record drm_i915_gem_execbuffer2 =
  buffers :: "drm_i915_gem_exec_object2 list"
  batch_start_offset :: "32 word"
  flags :: "64 word"

definition get_bo :: "(32 word \<Rightarrow> bo) \<Rightarrow> 32 word \<Rightarrow> error + bo" where
  "get_bo bos h =
     (if MAX_BO_COUNT \<le> unat h then Inl (Trap ''bo handle too large'') else Inr (bos h))"

definition addr_bits_of_gen :: "nat \<Rightarrow> nat" where
  "addr_bits_of_gen gen = (if 8 \<le> gen then 48 else 32)"

definition aub_write_reloc :: "nat \<Rightarrow> byte list \<Rightarrow> nat \<Rightarrow> 64 word \<Rightarrow> byte list" where
  "aub_write_reloc gen mem p v =
     (if 8 \<le> gen
      then store_through mem p (le64 (signed_drop_bit (63 - 47) (push_bit (63 - 47) v)))
      else store_through mem p (le32 (ucast v)))"

definition reloc_target :: "drm_i915_gem_execbuffer2 \<Rightarrow> drm_i915_gem_relocation_entry \<Rightarrow> error + 32 word" where
  "reloc_target execbuffer2 r =
     (if flags execbuffer2 AND I915_EXEC_HANDLE_LUT \<noteq> 0
      then (if unat (target_handle r) < length (buffers execbuffer2)
            then Inr (handle (buffers execbuffer2 ! unat (target_handle r)))
            else Inl Fault)
      else Inr (target_handle r))"

definition relocate_entry ::
  "nat \<Rightarrow> (32 word \<Rightarrow> bo) \<Rightarrow> drm_i915_gem_execbuffer2 \<Rightarrow> bo \<Rightarrow>
   drm_i915_gem_relocation_entry \<Rightarrow> byte list \<Rightarrow> error + byte list" where
  "relocate_entry gen bos execbuffer2 b r relocated =
     (if ucast (size_bo b) \<le> offset_reloc r
      then Inl (Trap ''intel_aubdump: reloc outside bo'')
      else case reloc_target execbuffer2 r of
             Inl e \<Rightarrow> Inl e
           | Inr h \<Rightarrow>
               (case get_bo bos h of
                  Inl e \<Rightarrow> Inl e
                | Inr target \<Rightarrow>
                    Inr (aub_write_reloc gen relocated (unat (offset_reloc r))
                           (offset_bo target + ucast (delta r)))))"

fun relocate_loop ::
  "nat \<Rightarrow> (32 word \<Rightarrow> bo) \<Rightarrow> drm_i915_gem_execbuffer2 \<Rightarrow> bo \<Rightarrow>
   drm_i915_gem_relocation_entry list \<Rightarrow> byte list \<Rightarrow> error + byte list" where
  "relocate_loop gen bos execbuffer2 b [] relocated = Inr relocated"
| "relocate_loop gen bos execbuffer2 b (r # rs) relocated =
     (case relocate_entry gen bos execbuffer2 b r relocated of
        Inl e \<Rightarrow> Inl e
      | Inr relocated' \<Rightarrow> relocate_loop gen bos execbuffer2 b rs relocated')"

definition relocate_bo ::
  "nat \<Rightarrow> (32 word \<Rightarrow> bo) \<Rightarrow> drm_i915_gem_execbuffer2 \<Rightarrow> bo \<Rightarrow>
   drm_i915_gem_exec_object2 \<Rightarrow> error + byte list" where
  "relocate_bo gen bos execbuffer2 b obj =
     (case map_bo b of
        None \<Rightarrow> Inl Fault
      | Some m \<Rightarrow> relocate_loop gen bos execbuffer2 b (relocs obj) (take (unat (size_bo b)) m))"


text \<open>
  In the words of the specification: the value of a relocation entry is the resolved
  address of the buffer it refers to plus the entry's delta, where the entry refers to a
  buffer by its handle or, under \<^verbatim>\<open>I915_EXEC_HANDLE_LUT\<close>, by its place in the buffer
  list of the submission. It takes 8 bytes of the copy with 48-bit addressing and 4 bytes
  with 32-bit addressing.
\<close>

definition reloc_value ::
  "drm_i915_gem_execbuffer2 \<Rightarrow> (32 word \<Rightarrow> bo) \<Rightarrow> drm_i915_gem_relocation_entry \<Rightarrow> 64 word" where
  "reloc_value execbuffer2 bo_table r =
     offset_bo (bo_table (if flags execbuffer2 AND I915_EXEC_HANDLE_LUT \<noteq> 0
                          then handle (buffers execbuffer2 ! unat (target_handle r))
                          else target_handle r))
       + ucast (delta r)"

definition reloc_width :: "nat \<Rightarrow> nat" where
  "reloc_width gen = (if addr_bits_of_gen gen = 48 then 8 else 4)"

definition reloc_slots_apart ::
  "nat \<Rightarrow> drm_i915_gem_relocation_entry \<Rightarrow> drm_i915_gem_relocation_entry \<Rightarrow> bool" where
  "reloc_slots_apart gen r r' \<longleftrightarrow>
     unat (offset_reloc r) + reloc_width gen \<le> unat (offset_reloc r') \<or>
     unat (offset_reloc r') + reloc_width gen \<le> unat (offset_reloc r)"


section \<open>Page table emulator (PPGTT)\<close>

text \<open>
  \<^verbatim>\<open>struct aub_ppgtt_table { uint64_t phys_addr; struct aub_ppgtt_table *subtables[512]; }\<close>.
  The tables form a tree below \<^verbatim>\<open>aub->pml4\<close> and the code reaches a table only along
  the path of slot indices from the root (the macros \<^verbatim>\<open>L3_table\<close>, \<^verbatim>\<open>L2_table\<close>,
  \<^verbatim>\<open>L1_table\<close>), so the model is a store whose addresses are these paths: the table
  \<open>[]\<close> is the root, \<open>[i4]\<close> is \<^verbatim>\<open>pml4.subtables[i4]\<close>, and so on. The store at
  \<open>tbl @ [i]\<close> holds the slot \<^verbatim>\<open>subtables[i]\<close> of the table \<open>tbl\<close>: \<open>None\<close> for a
  null pointer, \<open>Some a\<close> for a child table whose \<^verbatim>\<open>phys_addr\<close> is \<open>a\<close> (levels 4 to
  2), or for the physical address \<open>a\<close> that a level-1 table keeps in the pointer itself.
  \<^verbatim>\<open>calloc\<close> is taken to succeed.
\<close>

type_synonym aub_ppgtt_table = "nat list"
type_synonym subtables = "nat list \<Rightarrow> 64 word option"

record ppgtt =
  pml4 :: subtables
  phys_addrs_allocator :: "64 word"

text \<open>A level-1 slot is the integer cast to a pointer, so the value 0 is a null slot.\<close>

definition as_pointer :: "64 word \<Rightarrow> 64 word option" where
  "as_pointer v = (if v = 0 then None else Some v)"

definition phys_addr :: "subtables \<Rightarrow> aub_ppgtt_table \<Rightarrow> 64 word option" where
  "phys_addr s tbl = (if tbl = [] then Some PML4_PHYS_ADDR else s tbl)"

definition slot_value :: "64 word option \<Rightarrow> 64 word" where
  "slot_value p = (case p of None \<Rightarrow> 0 | Some a \<Rightarrow> a)"

text \<open>
  The state of the loop of \<^verbatim>\<open>populate_ppgtt_table\<close>: the tables and the allocator, the
  local array \<^verbatim>\<open>entries\<close>, and the dirty range.
\<close>

record populate_state =
  pp :: ppgtt
  entries :: "nat \<Rightarrow> 64 word"
  dirty_start :: nat
  dirty_end :: nat

definition populate_slot :: "nat \<Rightarrow> aub_ppgtt_table \<Rightarrow> nat \<Rightarrow> populate_state \<Rightarrow> populate_state" where
  "populate_slot level tbl i st =
     (let st1 =
        (if pml4 (pp st) (tbl @ [i]) = None
         then st\<lparr>dirty_start := min (dirty_start st) i,
                 dirty_end := max (dirty_end st) i,
                 pp := \<lparr>pml4 = (pml4 (pp st))
                          (tbl @ [i] :=
                             (if level = 1
                              then as_pointer (push_bit 12 (phys_addrs_allocator (pp st)))
                              else Some (push_bit 12 (phys_addrs_allocator (pp st))))),
                        phys_addrs_allocator = phys_addrs_allocator (pp st) + 1\<rparr>\<rparr>
         else st)
      in st1\<lparr>entries := (entries st1)(i := 3 OR slot_value (pml4 (pp st1) (tbl @ [i])))\<rparr>)"

function populate_loop ::
  "nat \<Rightarrow> aub_ppgtt_table \<Rightarrow> nat \<Rightarrow> nat \<Rightarrow> populate_state \<Rightarrow> populate_state" where
  "populate_loop level tbl i end st =
     (if i \<le> end then populate_loop level tbl (Suc i) end (populate_slot level tbl i st)
      else st)"
  by pat_completeness auto
termination
  by (relation "measure (\<lambda>(level, tbl, i, end, st). Suc end - i)") auto

declare populate_loop.simps [simp del]

text \<open>
  The records of the paged dialect. Each function that writes to \<^verbatim>\<open>aub->file\<close> is
  modelled by the bytes it hands to \<^verbatim>\<open>data_out\<close>, in order; \<open>data_out\<close> below appends
  them to the stream.
\<close>

definition dword_out :: "32 word \<Rightarrow> byte list" where
  "dword_out data = le32 data"

definition mem_trace_memory_write_header_out :: "64 word \<Rightarrow> 32 word \<Rightarrow> 32 word \<Rightarrow> byte list" where
  "mem_trace_memory_write_header_out addr len addr_space =
     (let dwords = (ucast (drop_bit 2 ((ucast len + 3 :: 64 word) AND NOT 3)) :: 32 word)
      in dword_out (CMD_MEM_TRACE_MEMORY_WRITE OR (5 + dwords - 1)) @
         dword_out (ucast (addr AND 0xFFFFFFFF)) @
         dword_out (ucast (drop_bit 32 addr)) @
         dword_out addr_space @
         dword_out len)"

definition register_write_out :: "32 word \<Rightarrow> 32 word \<Rightarrow> byte list" where
  "register_write_out addr v =
     (let dwords = (1 :: 32 word)
      in dword_out (CMD_MEM_TRACE_REGISTER_WRITE OR (5 + dwords - 1)) @
         dword_out addr @
         dword_out (AUB_MEM_TRACE_REGISTER_SIZE_DWORD OR AUB_MEM_TRACE_REGISTER_SPACE_MMIO) @
         dword_out 0xFFFFFFFF @
         dword_out 0x00000000 @
         dword_out v)"

definition populate_ppgtt_table ::
  "ppgtt \<Rightarrow> aub_ppgtt_table \<Rightarrow> nat \<Rightarrow> nat \<Rightarrow> nat \<Rightarrow> (ppgtt \<times> byte list) option" where
  "populate_ppgtt_table p tbl start end level =
     (if start \<le> end \<and> phys_addr (pml4 p) tbl = None then None
      else
        (let st = populate_loop level tbl start end
                    \<lparr>pp = p, entries = (\<lambda>i. 0), dirty_start = 512, dirty_end = 0\<rparr>
         in if dirty_start st \<le> dirty_end st
            then (let write_addr = slot_value (phys_addr (pml4 p) tbl) + of_nat (dirty_start st) * 8;
                      write_size = (of_nat (dirty_end st - dirty_start st + 1) * 8 :: 64 word)
                  in Some (pp st,
                       mem_trace_memory_write_header_out write_addr (ucast write_size)
                         AUB_MEM_TRACE_MEMORY_ADDRESS_SPACE_PHYSICAL @
                       concat (map (\<lambda>i. le64 (entries st i))
                                 [dirty_start st ..< dirty_end st + 1])))
            else Some (pp st, [])))"

definition L4_index :: "64 word \<Rightarrow> nat" where "L4_index addr = unat (drop_bit 39 addr AND 0x1ff)"
definition L3_index :: "64 word \<Rightarrow> nat" where "L3_index addr = unat (drop_bit 30 addr AND 0x1ff)"
definition L2_index :: "64 word \<Rightarrow> nat" where "L2_index addr = unat (drop_bit 21 addr AND 0x1ff)"
definition L1_index :: "64 word \<Rightarrow> nat" where "L1_index addr = unat (drop_bit 12 addr AND 0x1ff)"

definition L3_table :: "64 word \<Rightarrow> aub_ppgtt_table" where
  "L3_table addr = [L4_index addr]"
definition L2_table :: "64 word \<Rightarrow> aub_ppgtt_table" where
  "L2_table addr = L3_table addr @ [L3_index addr]"
definition L1_table :: "64 word \<Rightarrow> aub_ppgtt_table" where
  "L1_table addr = L2_table addr @ [L2_index addr]"

text \<open>
  One call of \<^verbatim>\<open>populate_ppgtt_table\<close> inside \<^verbatim>\<open>aub_map_ppgtt\<close>: the tables are
  updated and the bytes written are appended to those written so far.
\<close>

definition populate_next ::
  "ppgtt \<times> byte list \<Rightarrow> aub_ppgtt_table \<Rightarrow> nat \<Rightarrow> nat \<Rightarrow> nat \<Rightarrow> (ppgtt \<times> byte list) option" where
  "populate_next acc tbl start end level =
     (case populate_ppgtt_table (fst acc) tbl start end level of
        None \<Rightarrow> None
      | Some (p', out) \<Rightarrow> Some (p', snd acc @ out))"

lemma step_below_2p48:
  fixes l e c :: "64 word"
  assumes "l < e" "e \<le> 0xffffffffffff" "unat c \<le> 2 ^ 39"
  shows "unat (l + c) = unat l + unat c" "unat l < 2 ^ 48"
proof -
  show a: "unat l < 2 ^ 48" using assms(1,2) by (simp add: word_less_nat_alt word_le_nat_alt)
  have "unat l + unat c < 2 ^ LENGTH(64)" using a assms(3) by simp
  then show "unat (l + c) = unat l + unat c" by (simp only: unat_add_lem)
qed

function aub_map_ppgtt_l2 ::
  "64 word \<Rightarrow> 64 word \<Rightarrow> 64 word \<Rightarrow> 64 word \<Rightarrow> ppgtt \<times> byte list \<Rightarrow> (ppgtt \<times> byte list) option" where
  "aub_map_ppgtt_l2 start size' l3 l2 acc =
     (let l2_end = min (l3 + push_bit 30 1 - 1)
                       (((start + size' - 1) OR 0x0000001fffff) AND 0xffffffffffff)
      in if l2 < l2_end
         then (let l1_start = max l2 (start AND 0xfffffffff000);
                   l1_end = min (l2 + push_bit 21 1 - 1)
                                (((start + size' - 1) OR 0x000000000fff) AND 0xffffffffffff);
                   l1_start_idx = L1_index l1_start;
                   l1_end_idx = L1_index l1_end
               in case populate_next acc (L1_table l2) l1_start_idx l1_end_idx 1 of
                    None \<Rightarrow> None
                  | Some acc' \<Rightarrow> aub_map_ppgtt_l2 start size' l3 (l2 + push_bit 21 1) acc')
         else Some acc)"
  by pat_completeness auto
termination
proof (relation "measure (\<lambda>(start, size', l3, l2, acc). 2 ^ 48 - unat l2)", goal_cases)
  case 1 show ?case by simp
next
  case (2 start size' l3 l2 acc l2_end l1_start l1_end l1_start_idx l1_end_idx acc')
  have "l2_end \<le> 0xffffffffffff"
    unfolding 2(1) by (rule order_trans [OF min.cobounded2]) (rule word_and_le1)
  from step_below_2p48 [OF 2(2) this, of "push_bit 21 1"]
  show ?case by simp
qed

function aub_map_ppgtt_l3 ::
  "64 word \<Rightarrow> 64 word \<Rightarrow> 64 word \<Rightarrow> 64 word \<Rightarrow> ppgtt \<times> byte list \<Rightarrow> (ppgtt \<times> byte list) option" where
  "aub_map_ppgtt_l3 start size' l4 l3 acc =
     (let l3_end = min (l4 + push_bit 39 1 - 1)
                       (((start + size' - 1) OR 0x00003fffffff) AND 0xffffffffffff)
      in if l3 < l3_end
         then (let l2_start = max l3 (start AND 0xffffffe00000);
                   l2_end = min (l3 + push_bit 30 1 - 1)
                                (((start + size' - 1) OR 0x0000001fffff) AND 0xffffffffffff);
                   l2_start_idx = L2_index l2_start;
                   l2_end_idx = L2_index l2_end
               in case populate_next acc (L2_table l3) l2_start_idx l2_end_idx 2 of
                    None \<Rightarrow> None
                  | Some acc' \<Rightarrow>
                      (case aub_map_ppgtt_l2 start size' l3 l2_start acc' of
                         None \<Rightarrow> None
                       | Some acc'' \<Rightarrow> aub_map_ppgtt_l3 start size' l4 (l3 + push_bit 30 1) acc''))
         else Some acc)"
  by pat_completeness auto
termination
proof (relation "measure (\<lambda>(start, size', l4, l3, acc). 2 ^ 48 - unat l3)", goal_cases)
  case 1 show ?case by simp
next
  case (2 start size' l4 l3 acc l3_end l2_start l2_end l2_start_idx l2_end_idx acc' acc'')
  have "l3_end \<le> 0xffffffffffff"
    unfolding 2(1) by (rule order_trans [OF min.cobounded2]) (rule word_and_le1)
  from step_below_2p48 [OF 2(2) this, of "push_bit 30 1"]
  show ?case by simp
qed

function aub_map_ppgtt_l4 ::
  "64 word \<Rightarrow> 64 word \<Rightarrow> 64 word \<Rightarrow> ppgtt \<times> byte list \<Rightarrow> (ppgtt \<times> byte list) option" where
  "aub_map_ppgtt_l4 start size' l4 acc =
     (let l4_end = ((start + size' - 1) OR 0x007fffffffff) AND 0xffffffffffff
      in if l4 < l4_end
         then (let l3_start = max l4 (start AND 0xffffc0000000);
                   l3_end = min (l4 + push_bit 39 1 - 1)
                                (((start + size' - 1) OR 0x00003fffffff) AND 0xffffffffffff);
                   l3_start_idx = L3_index l3_start;
                   l3_end_idx = L3_index l3_end
               in case populate_next acc (L3_table l4) l3_start_idx l3_end_idx 3 of
                    None \<Rightarrow> None
                  | Some acc' \<Rightarrow>
                      (case aub_map_ppgtt_l3 start size' l4 l3_start acc' of
                         None \<Rightarrow> None
                       | Some acc'' \<Rightarrow> aub_map_ppgtt_l4 start size' (l4 + push_bit 39 1) acc''))
         else Some acc)"
  by pat_completeness auto
termination
proof (relation "measure (\<lambda>(start, size', l4, acc). 2 ^ 48 - unat l4)", goal_cases)
  case 1 show ?case by simp
next
  case (2 start size' l4 acc l4_end l3_start l3_end l3_start_idx l3_end_idx acc' acc'')
  have "l4_end \<le> 0xffffffffffff"
    unfolding 2(1) by (rule word_and_le1)
  from step_below_2p48 [OF 2(2) this, of "push_bit 39 1"]
  show ?case by simp
qed

declare aub_map_ppgtt_l2.simps [simp del] aub_map_ppgtt_l3.simps [simp del]
  aub_map_ppgtt_l4.simps [simp del]

definition aub_map_ppgtt :: "ppgtt \<Rightarrow> 64 word \<Rightarrow> 64 word \<Rightarrow> (ppgtt \<times> byte list) option" where
  "aub_map_ppgtt p start size' =
     (let l4_start = start AND 0xff8000000000;
          l4_end = ((start + size' - 1) OR 0x007fffffffff) AND 0xffffffffffff
      in case populate_next (p, []) [] (L4_index l4_start) (L4_index l4_end) 4 of
           None \<Rightarrow> None
         | Some acc \<Rightarrow> aub_map_ppgtt_l4 start size' l4_start acc)"

text \<open>
  \<^verbatim>\<open>ppgtt_lookup\<close> follows three table pointers without a check and returns the
  level-1 slot; following a null pointer is a fault (\<open>None\<close>).
\<close>

definition ppgtt_lookup :: "subtables \<Rightarrow> 64 word \<Rightarrow> 64 word option" where
  "ppgtt_lookup s ppgtt_addr =
     (if s (L3_table ppgtt_addr) = None \<or> s (L2_table ppgtt_addr) = None \<or>
         s (L1_table ppgtt_addr) = None
      then None
      else Some (slot_value (s (L1_table ppgtt_addr @ [L1_index ppgtt_addr]))))"

text \<open>
  The page tables when a trace file has just been initialised: \<^verbatim>\<open>aub->pml4\<close> is zeroed
  and the allocator holds its initial value \<^verbatim>\<open>(PML4_PHYS_ADDR >> 12) + 1\<close>.
\<close>

definition ppgtt0 :: ppgtt where
  "ppgtt0 = \<lparr>pml4 = (\<lambda>t. None), phys_addrs_allocator = drop_bit 12 PML4_PHYS_ADDR + 1\<rparr>"


text \<open>
  The slots of a table in the range \<open>start\<close> to \<open>end\<close> that are empty, in increasing
  order: those that a call of \<^verbatim>\<open>populate_ppgtt_table\<close> for the range newly populates.
\<close>

definition new_slots :: "subtables \<Rightarrow> aub_ppgtt_table \<Rightarrow> nat \<Rightarrow> nat \<Rightarrow> nat list" where
  "new_slots s tbl start end = filter (\<lambda>i. s (tbl @ [i]) = None) [start ..< Suc end]"


text \<open>
  A root table in which slot 1 alone has been populated.
\<close>

definition example_ppgtt :: ppgtt where
  "example_ppgtt = \<lparr>pml4 = (\<lambda>t. None)([1] := Some 0x5000), phys_addrs_allocator = 0x1e\<rparr>"


section \<open>Container encoder\<close>

text \<open>
  \<^verbatim>\<open>struct aub_file\<close>. The \<^verbatim>\<open>FILE *\<close> is the number of an open stream, or \<open>None\<close>
  for a null pointer; the contents of the streams are kept in a table of their own, since
  \<^verbatim>\<open>files[i]\<close> and \<^verbatim>\<open>aubs[i].file\<close> point to the same stream. The log to
  \<^verbatim>\<open>verbose_log_file\<close> is left out. \<open>aub_zero\<close> is the zero-initialised static
  \<^verbatim>\<open>aubs[i]\<close> before \<^verbatim>\<open>aub_file_init\<close>.
\<close>

record aub_file =
  file' :: "nat option"
  pci_id :: "16 word"
  devinfo_gen :: nat
  addr_bits :: nat
  aub_pml4 :: subtables

definition aub_zero :: aub_file where
  "aub_zero = \<lparr>file' = None, pci_id = 0, devinfo_gen = 0, addr_bits = 0, aub_pml4 = (\<lambda>t. None)\<rparr>"

definition aub_use_execlists :: "aub_file \<Rightarrow> bool" where
  "aub_use_execlists aub = (8 \<le> devinfo_gen aub)"

definition aub_gtt_size :: "aub_file \<Rightarrow> 32 word" where
  "aub_gtt_size aub = of_nat (NUM_PT_ENTRIES * (if 32 < addr_bits aub then GEN8_PTE_SIZE else PTE_SIZE))"

text \<open>
  \<^verbatim>\<open>data_out\<close>: nothing happens for an empty block; otherwise the block is appended to
  the stream of \<^verbatim>\<open>aub->file\<close> (\<^verbatim>\<open>fwrite\<close> is taken to succeed on an open stream),
  and \<^verbatim>\<open>fwrite\<close> on a null stream is a fault.
\<close>

definition data_out :: "(nat \<Rightarrow> byte list) \<Rightarrow> aub_file \<Rightarrow> byte list \<Rightarrow> error + (nat \<Rightarrow> byte list)" where
  "data_out streams aub data =
     (if data = [] then Inr streams
      else case file' aub of
             None \<Rightarrow> Inl Fault
           | Some f \<Rightarrow> Inr (streams(f := streams f @ data)))"

text \<open>
  \<^verbatim>\<open>aub_write_trace_block\<close>: the loop over \<^verbatim>\<open>offset\<close>. \<open>virtual\<close> is the buffer's
  contents, or \<open>None\<close> for a null pointer, for which the zero block is written.
\<close>

definition trace_block_size :: "aub_file \<Rightarrow> 32 word \<Rightarrow> 32 word \<Rightarrow> 32 word" where
  "trace_block_size aub size' offset =
     (let block_size = min (8 * 4096) (size' - offset)
      in if aub_use_execlists aub then min 4096 block_size else block_size)"

lemma trace_block_size_step:
  assumes "offset < size'"
  shows "unat (offset + trace_block_size aub size' offset)
           = unat offset + unat (trace_block_size aub size' offset)"
    and "0 < unat (trace_block_size aub size' offset)"
    and "unat offset + unat (trace_block_size aub size' offset) \<le> unat size'"
proof -
  have d: "unat (size' - offset) = unat size' - unat offset" "unat offset < unat size'"
    using assms by (simp_all add: unat_sub word_less_nat_alt word_le_nat_alt)
  have le: "trace_block_size aub size' offset \<le> size' - offset"
    by (simp add: trace_block_size_def Let_def min.coboundedI2 min.coboundedI1)
  then have b: "unat (trace_block_size aub size' offset) \<le> unat size' - unat offset"
    using d by (simp add: word_le_nat_alt)
  then show c: "unat offset + unat (trace_block_size aub size' offset) \<le> unat size'"
    using d by simp
  have "unat size' < 2 ^ LENGTH(32)" by (rule unsigned_less)
  with c have "unat offset + unat (trace_block_size aub size' offset) < 2 ^ LENGTH(32)"
    by simp
  then show "unat (offset + trace_block_size aub size' offset)
           = unat offset + unat (trace_block_size aub size' offset)"
    by (simp only: unat_add_lem)
  have "size' - offset \<noteq> 0" using assms by simp
  then have "trace_block_size aub size' offset \<noteq> 0"
    by (simp add: trace_block_size_def Let_def min_def)
  then show "0 < unat (trace_block_size aub size' offset)"
    by (simp add: unat_gt_0)
qed

text \<open>
  The body of the loop in three parts: the header of one record, which names the address
  the record is written to; the \<^verbatim>\<open>block_size\<close> bytes of the buffer from \<^verbatim>\<open>offset\<close> on
  with the padding to a multiple of 4 bytes; and the record made of both.
\<close>

definition trace_block_header ::
  "aub_file \<Rightarrow> 32 word \<Rightarrow> 64 word \<Rightarrow> 32 word \<Rightarrow> 32 word \<Rightarrow> byte list option" where
  "trace_block_header aub type gtt_offset offset block_size =
     (let subtype = 0
      in if aub_use_execlists aub
         then (case ppgtt_lookup (aub_pml4 aub) (gtt_offset + ucast offset) of
                 None \<Rightarrow> None
               | Some a \<Rightarrow>
                   Some (mem_trace_memory_write_header_out a block_size
                           AUB_MEM_TRACE_MEMORY_ADDRESS_SPACE_PHYSICAL))
         else Some (
           dword_out (CMD_AUB_TRACE_HEADER_BLOCK OR
                      ((if 32 < addr_bits aub then 6 else 5) - 2)) @
           dword_out (AUB_TRACE_MEMTYPE_GTT OR type OR AUB_TRACE_OP_DATA_WRITE) @
           dword_out subtype @
           dword_out (ucast (gtt_offset + ucast offset)) @
           dword_out (align_u32 block_size 4) @
           (if 32 < addr_bits aub
            then dword_out (ucast (drop_bit 32 (gtt_offset + ucast offset)))
            else [])))"

definition trace_block_payload :: "byte list option \<Rightarrow> 32 word \<Rightarrow> 32 word \<Rightarrow> byte list" where
  "trace_block_payload virtual offset block_size =
     (case virtual of
        Some v \<Rightarrow> take (unat block_size) (drop (unat offset) v)
      | None \<Rightarrow> replicate (unat block_size) 0) @
     replicate (unat (- block_size AND 3)) 0"

definition trace_block_record ::
  "aub_file \<Rightarrow> 32 word \<Rightarrow> byte list option \<Rightarrow> 64 word \<Rightarrow> 32 word \<Rightarrow> 32 word \<Rightarrow> byte list option" where
  "trace_block_record aub type virtual gtt_offset offset block_size =
     (case trace_block_header aub type gtt_offset offset block_size of
        None \<Rightarrow> None
      | Some h \<Rightarrow> Some (h @ trace_block_payload virtual offset block_size))"

function aub_write_trace_block_loop ::
  "aub_file \<Rightarrow> 32 word \<Rightarrow> byte list option \<Rightarrow> 32 word \<Rightarrow> 64 word \<Rightarrow> 32 word \<Rightarrow> byte list option" where
  "aub_write_trace_block_loop aub type virtual size' gtt_offset offset =
     (if offset < size'
      then (case trace_block_record aub type virtual gtt_offset offset
                   (trace_block_size aub size' offset) of
              None \<Rightarrow> None
            | Some r \<Rightarrow>
                (case aub_write_trace_block_loop aub type virtual size' gtt_offset
                        (offset + trace_block_size aub size' offset) of
                   None \<Rightarrow> None
                 | Some rest \<Rightarrow> Some (r @ rest)))
      else Some [])"
  by pat_completeness auto
termination
proof (relation "measure (\<lambda>(aub, type, virtual, size', gtt_offset, offset). unat size' - unat offset)",
    goal_cases)
  case 1 show ?case by simp
next
  case (2 aub type virtual size' gtt_offset offset r)
  from trace_block_size_step [OF 2(1), of aub] show ?case by simp
qed

declare aub_write_trace_block_loop.simps [simp del]

definition aub_write_trace_block ::
  "aub_file \<Rightarrow> 32 word \<Rightarrow> byte list option \<Rightarrow> 32 word \<Rightarrow> 64 word \<Rightarrow> byte list option" where
  "aub_write_trace_block aub type virtual size' gtt_offset =
     aub_write_trace_block_loop aub type virtual size' gtt_offset 0"

text \<open>
  \<^verbatim>\<open>aub_dump_execlist\<close>: the engine is chosen by \<^verbatim>\<open>ring_flag\<close>; any other value
  reaches \<^verbatim>\<open>unreachable()\<close> (\<open>None\<close>).
\<close>

definition EXECLIST_SUBMITPORT_RCSUNIT :: "32 word" where "EXECLIST_SUBMITPORT_RCSUNIT = 0x02230"
definition EXECLIST_SUBMITPORT_VCSUNIT0 :: "32 word" where "EXECLIST_SUBMITPORT_VCSUNIT0 = 0x12230"
definition EXECLIST_SUBMITPORT_BCSUNIT :: "32 word" where "EXECLIST_SUBMITPORT_BCSUNIT = 0x22230"
definition EXECLIST_STATUS_RCSUNIT :: "32 word" where "EXECLIST_STATUS_RCSUNIT = 0x02234"
definition EXECLIST_STATUS_VCSUNIT0 :: "32 word" where "EXECLIST_STATUS_VCSUNIT0 = 0x12234"
definition EXECLIST_STATUS_BCSUNIT :: "32 word" where "EXECLIST_STATUS_BCSUNIT = 0x22234"
definition EXECLIST_SQ_CONTENTS0_RCSUNIT :: "32 word" where "EXECLIST_SQ_CONTENTS0_RCSUNIT = 0x02510"
definition EXECLIST_SQ_CONTENTS0_VCSUNIT0 :: "32 word" where "EXECLIST_SQ_CONTENTS0_VCSUNIT0 = 0x12510"
definition EXECLIST_SQ_CONTENTS0_BCSUNIT :: "32 word" where "EXECLIST_SQ_CONTENTS0_BCSUNIT = 0x22510"
definition EXECLIST_CONTROL_RCSUNIT :: "32 word" where "EXECLIST_CONTROL_RCSUNIT = 0x02550"
definition EXECLIST_CONTROL_VCSUNIT0 :: "32 word" where "EXECLIST_CONTROL_VCSUNIT0 = 0x12550"
definition EXECLIST_CONTROL_BCSUNIT :: "32 word" where "EXECLIST_CONTROL_BCSUNIT = 0x22550"

record engine_regs =
  ring_addr :: "32 word"
  descriptor :: "64 word"
  elsp_reg :: "32 word"
  elsq_reg :: "32 word"
  status_reg :: "32 word"
  control_reg :: "32 word"

definition execlist_engine :: "32 word \<Rightarrow> engine_regs option" where
  "execlist_engine ring_flag =
     (if ring_flag = I915_EXEC_DEFAULT \<or> ring_flag = I915_EXEC_RENDER
      then Some \<lparr>ring_addr = of_nat RENDER_RING_ADDR, descriptor = RENDER_CONTEXT_DESCRIPTOR,
                  elsp_reg = EXECLIST_SUBMITPORT_RCSUNIT, elsq_reg = EXECLIST_SQ_CONTENTS0_RCSUNIT,
                  status_reg = EXECLIST_STATUS_RCSUNIT, control_reg = EXECLIST_CONTROL_RCSUNIT\<rparr>
      else if ring_flag = I915_EXEC_BSD
      then Some \<lparr>ring_addr = of_nat VIDEO_RING_ADDR, descriptor = VIDEO_CONTEXT_DESCRIPTOR,
                  elsp_reg = EXECLIST_SUBMITPORT_VCSUNIT0, elsq_reg = EXECLIST_SQ_CONTENTS0_VCSUNIT0,
                  status_reg = EXECLIST_STATUS_VCSUNIT0, control_reg = EXECLIST_CONTROL_VCSUNIT0\<rparr>
      else if ring_flag = I915_EXEC_BLT
      then Some \<lparr>ring_addr = of_nat BLITTER_RING_ADDR, descriptor = BLITTER_CONTEXT_DESCRIPTOR,
                  elsp_reg = EXECLIST_SUBMITPORT_BCSUNIT, elsq_reg = EXECLIST_SQ_CONTENTS0_BCSUNIT,
                  status_reg = EXECLIST_STATUS_BCSUNIT, control_reg = EXECLIST_CONTROL_BCSUNIT\<rparr>
      else None)"

definition aub_dump_execlist :: "aub_file \<Rightarrow> 64 word \<Rightarrow> 32 word \<Rightarrow> byte list option" where
  "aub_dump_execlist aub batch_offset ring_flag =
     (case execlist_engine ring_flag of
        None \<Rightarrow> None
      | Some e \<Rightarrow> Some (
          mem_trace_memory_write_header_out (ucast (ring_addr e)) 16
            AUB_MEM_TRACE_MEMORY_ADDRESS_SPACE_GGTT @
          dword_out (AUB_MI_BATCH_BUFFER_START OR MI_BATCH_NON_SECURE_I965 OR (3 - 2)) @
          dword_out (ucast (batch_offset AND 0xFFFFFFFF)) @
          dword_out (ucast (drop_bit 32 batch_offset)) @
          dword_out 0 @
          mem_trace_memory_write_header_out (ucast (ring_addr e + 8192 + 20)) 4
            AUB_MEM_TRACE_MEMORY_ADDRESS_SPACE_GGTT @
          dword_out 0 @
          mem_trace_memory_write_header_out (ucast (ring_addr e + 8192 + 28)) 4
            AUB_MEM_TRACE_MEMORY_ADDRESS_SPACE_GGTT @
          dword_out 16 @
          (if 11 \<le> devinfo_gen aub
           then register_write_out (elsq_reg e) (ucast (descriptor e AND 0xFFFFFFFF)) @
                register_write_out (elsq_reg e + 4) (ucast (drop_bit 32 (descriptor e))) @
                register_write_out (control_reg e) 1
           else register_write_out (elsp_reg e) 0 @
                register_write_out (elsp_reg e) 0 @
                register_write_out (elsp_reg e) (ucast (drop_bit 32 (descriptor e))) @
                register_write_out (elsp_reg e) (ucast (descriptor e AND 0xFFFFFFFF))) @
          dword_out (CMD_MEM_TRACE_REGISTER_POLL OR (5 + 1 - 1)) @
          dword_out (status_reg e) @
          dword_out (AUB_MEM_TRACE_REGISTER_SIZE_DWORD OR AUB_MEM_TRACE_REGISTER_SPACE_MMIO) @
          (if 11 \<le> devinfo_gen aub
           then dword_out 0x00000001 @ dword_out 0x00000000 @ dword_out 0x00000001
           else dword_out 0x00000010 @ dword_out 0x00000000 @ dword_out 0x00000000)))"

text \<open>
  \<^verbatim>\<open>aub_dump_ringbuffer\<close>: a ring of 4096 zeroed words, the batch-start command and
  the batch address stored by \<^verbatim>\<open>aub_write_reloc\<close>; the first \<^verbatim>\<open>ring_count\<close> words
  are written after the block header.
\<close>

definition aub_dump_ringbuffer :: "aub_file \<Rightarrow> 64 word \<Rightarrow> 64 word \<Rightarrow> 32 word \<Rightarrow> byte list option" where
  "aub_dump_ringbuffer aub batch_offset offset ring_flag =
     (let ring = (if ring_flag = I915_EXEC_BSD then AUB_TRACE_TYPE_RING_PRB1
                  else if ring_flag = I915_EXEC_BLT then AUB_TRACE_TYPE_RING_PRB2
                  else AUB_TRACE_TYPE_RING_PRB0);
          aub_mi_bbs_len = (if 32 < addr_bits aub then 3 else 2 :: nat);
          ringbuffer0 = le32 (AUB_MI_BATCH_BUFFER_START OR (of_nat aub_mi_bbs_len - 2)) @
                        replicate (4095 * 4) 0;
          ring_count = aub_mi_bbs_len;
          ringbuffer = aub_write_reloc (devinfo_gen aub) ringbuffer0 4 batch_offset
      in Some (
             dword_out (CMD_AUB_TRACE_HEADER_BLOCK OR
                        ((if 32 < addr_bits aub then 6 else 5) - 2)) @
             dword_out (AUB_TRACE_MEMTYPE_GTT OR ring OR AUB_TRACE_OP_COMMAND_WRITE) @
             dword_out 0 @
             dword_out (ucast offset) @
             dword_out (of_nat (ring_count * 4)) @
             (if 32 < addr_bits aub then dword_out (ucast (drop_bit 32 offset)) else []) @
             take (ring_count * 4) ringbuffer))"

definition aub_write_exec :: "aub_file \<Rightarrow> 64 word \<Rightarrow> 64 word \<Rightarrow> 32 word \<Rightarrow> byte list option" where
  "aub_write_exec aub batch_addr offset ring_flag =
     (if aub_use_execlists aub
      then aub_dump_execlist aub batch_addr ring_flag
      else aub_dump_ringbuffer aub batch_addr offset ring_flag)"


text \<open>
  The chunks of a write, in the words of the specification: the chunk limit is one page
  where addresses go through the PPGTT (paged dialect) and eight pages otherwise (legacy
  dialect); a write of \<open>size'\<close> bytes has \<open>\<lceil>size' / limit\<rceil>\<close> chunks, chunk \<open>k\<close> starts
  \<open>k * limit\<close> bytes into the buffer and holds the bytes up to the next chunk or to the
  end of the buffer.
\<close>

definition chunk_limit :: "aub_file \<Rightarrow> nat" where
  "chunk_limit aub = (if aub_use_execlists aub then 4096 else 8 * 4096)"

definition chunk_count :: "aub_file \<Rightarrow> 32 word \<Rightarrow> nat" where
  "chunk_count aub size' = (unat size' + chunk_limit aub - 1) div chunk_limit aub"

definition chunk_offset :: "aub_file \<Rightarrow> nat \<Rightarrow> 32 word" where
  "chunk_offset aub k = of_nat (k * chunk_limit aub)"

definition chunk_size :: "aub_file \<Rightarrow> 32 word \<Rightarrow> nat \<Rightarrow> 32 word" where
  "chunk_size aub size' k = of_nat (min (chunk_limit aub) (unat size' - k * chunk_limit aub))"


text \<open>
  A generation-9 trace file (paged dialect) whose page tables map the four pages of the
  virtual range \<open>[0, 0x4000)\<close>. They are the tables left by mapping \<open>[0x1000, 0x3000)\<close> and
  then \<open>[0, 0x4000)\<close>, as two submissions with pinned buffers do: the pages of the first
  range were allocated first.
\<close>

definition example_paged_tables :: subtables where
  "example_paged_tables = (\<lambda>t. None)
     ([0] := Some 0x1e000, [0, 0] := Some 0x1f000, [0, 0, 0] := Some 0x20000,
      [0, 0, 0, 1] := Some 0x21000, [0, 0, 0, 2] := Some 0x22000,
      [0, 0, 0, 0] := Some 0x23000, [0, 0, 0, 3] := Some 0x24000)"

definition example_paged_aub :: aub_file where
  "example_paged_aub = \<lparr>file' = Some 0, pci_id = 0x1912, devinfo_gen = 9, addr_bits = 48,
                         aub_pml4 = example_paged_tables\<rparr>"


section \<open>Capture shim\<close>

text \<open>
  The static state of \<^verbatim>\<open>intel_dump_gpu.c\<close>: \<^verbatim>\<open>device\<close>, the generation of the static
  \<^verbatim>\<open>devinfo\<close> (0 until the device is identified), \<^verbatim>\<open>files[2]\<close>, \<^verbatim>\<open>aubs[2]\<close>, the
  table \<^verbatim>\<open>bos\<close>, \<^verbatim>\<open>verbose\<close>, and the static \<^verbatim>\<open>phys_addrs_allocator\<close> of
  \<^verbatim>\<open>populate_ppgtt_table\<close>, which both trace files share. \<open>streams\<close> holds what has
  been written to each open stream and \<open>stdout\<close> the messages printed.
\<close>

datatype message =
    Msg_running "32 word" nat
  | Msg_dumping
  | Msg_bo_invalid "32 word"
  | Msg_bo_pinned "32 word" "32 word" "64 word"
  | Msg_bo_at "32 word" "32 word" "64 word"

record shim_state =
  device :: "32 word"
  devinfo :: nat
  files :: "nat option list"
  streams :: "nat \<Rightarrow> byte list"
  aubs :: "aub_file list"
  bos :: "32 word \<Rightarrow> bo"
  verbose :: nat
  stdout :: "message list"
  allocator :: "64 word"

text \<open>
  What the shim asks of the world outside the sources: the chipset id returned by the
  \<^verbatim>\<open>I915_PARAM_CHIPSET_ID\<close> ioctl (0 when it fails), the generation that
  \<^verbatim>\<open>gen_get_device_info\<close> finds for a device id (\<open>None\<close> when it fails), the contents
  that \<^verbatim>\<open>gem_mmap\<close> maps for a handle (\<open>None\<close> for \<^verbatim>\<open>MAP_FAILED\<close>), and the bytes
  of the file header, which \<^verbatim>\<open>aub_write_header\<close> formats from the program name.
\<close>

record environment =
  gem_get_param :: "32 word"
  gen_get_device_info :: "32 word \<Rightarrow> nat option"
  gem_mmap :: "32 word \<Rightarrow> 32 word \<Rightarrow> byte list option"
  aub_write_header :: "aub_file \<Rightarrow> byte list"

definition aub_file_init :: "environment \<Rightarrow> nat \<Rightarrow> 32 word \<Rightarrow> error + aub_file" where
  "aub_file_init env f dev =
     (let pci = (ucast dev :: 16 word)
      in case gen_get_device_info env (ucast pci) of
           None \<Rightarrow> Inl (Trap ''failed to identify chipset'')
         | Some g \<Rightarrow>
             Inr \<lparr>file' = Some f, pci_id = pci, devinfo_gen = g,
                  addr_bits = (if 8 \<le> g then 48 else 32), aub_pml4 = (\<lambda>t. None)\<rparr>)"

fun init_files :: "environment \<Rightarrow> nat list \<Rightarrow> shim_state \<Rightarrow> error + shim_state" where
  "init_files env [] st = Inr st"
| "init_files env (i # is) st =
     (case files st ! i of
        None \<Rightarrow> init_files env is st
      | Some f \<Rightarrow>
          (case aub_file_init env f (device st) of
             Inl e \<Rightarrow> Inl e
           | Inr aub \<Rightarrow>
               (case data_out (streams st) aub (aub_write_header env aub) of
                  Inl e \<Rightarrow> Inl e
                | Inr str \<Rightarrow>
                    init_files env is (st\<lparr>aubs := (aubs st)[i := aub], streams := str\<rparr>))))"

definition identify_device :: "environment \<Rightarrow> shim_state \<Rightarrow> error + shim_state" where
  "identify_device env st =
     (case (if device st = 0
            then (let d = gem_get_param env
                  in if d = 0 \<or> devinfo st = 0 then Inl (Trap ''failed to identify chipset'')
                     else Inr (st\<lparr>device := d\<rparr>))
            else Inr st) of
        Inl e \<Rightarrow> Inl e
      | Inr st1 \<Rightarrow>
          if devinfo st1 = 0
          then (case gen_get_device_info env (device st1) of
                  None \<Rightarrow> Inl (Trap ''failed to identify chipset'')
                | Some g \<Rightarrow>
                    (case init_files env [0, 1] (st1\<lparr>devinfo := g\<rparr>) of
                       Inl e \<Rightarrow> Inl e
                     | Inr st2 \<Rightarrow>
                         Inr (if verbose st2 \<noteq> 0
                              then st2\<lparr>stdout := stdout st2 @ [Msg_running (device st2) g]\<rparr>
                              else st2)))
          else Inr st1)"

text \<open>
  The first loop of \<^verbatim>\<open>dump_execbuffer2\<close>, which gives every buffer its address and
  maps it. The early \<^verbatim>\<open>return\<close> for a buffer of size 0 leaves the function
  (\<open>Return\<close>); otherwise the loop goes on (\<open>Next\<close>) with the allocation cursor
  \<^verbatim>\<open>offset\<close>.
\<close>

datatype 'a flow = Return shim_state | Next 'a

fun map_ppgtt_files :: "nat list \<Rightarrow> bo \<Rightarrow> shim_state \<Rightarrow> error + shim_state" where
  "map_ppgtt_files [] b st = Inr st"
| "map_ppgtt_files (i # is) b st =
     (if files st ! i = None then map_ppgtt_files is b st
      else if aub_use_execlists (aubs st ! i)
      then (case aub_map_ppgtt \<lparr>pml4 = aub_pml4 (aubs st ! i),
                                phys_addrs_allocator = allocator st\<rparr>
                   (offset_bo b) (ucast (size_bo b)) of
              None \<Rightarrow> Inl Fault
            | Some (p, out) \<Rightarrow>
                (case data_out (streams st) (aubs st ! i) out of
                   Inl e \<Rightarrow> Inl e
                 | Inr str \<Rightarrow>
                     map_ppgtt_files is b
                       (st\<lparr>aubs := (aubs st)[i := (aubs st ! i)\<lparr>aub_pml4 := pml4 p\<rparr>],
                           allocator := phys_addrs_allocator p, streams := str\<rparr>)))
      else map_ppgtt_files is b st)"

definition assign_buffer ::
  "environment \<Rightarrow> drm_i915_gem_exec_object2 \<Rightarrow> shim_state \<Rightarrow> 32 word \<Rightarrow>
   error + (shim_state \<times> 32 word) flow" where
  "assign_buffer env obj st offset =
     (case get_bo (bos st) (handle obj) of
        Inl e \<Rightarrow> Inl e
      | Inr b \<Rightarrow>
          if size_bo b = 0
          then Inr (Return (if verbose st \<noteq> 0
                            then st\<lparr>stdout := stdout st @ [Msg_bo_invalid (handle obj)]\<rparr>
                            else st))
          else
            (let pinned = (flags_obj obj AND EXEC_OBJECT_PINNED \<noteq> 0);
                 offset1 = (if pinned \<or> alignment obj = 0 then offset
                            else align_u32 offset (ucast (alignment obj)));
                 b1 = b\<lparr>offset_bo := (if pinned then offset_obj obj else ucast offset1)\<rparr>;
                 msg = (if pinned then Msg_bo_pinned (handle obj) (size_bo b1) (offset_bo b1)
                        else Msg_bo_at (handle obj) (size_bo b1) (offset_bo b1));
                 offset2 = (if pinned then offset1
                            else align_u32 (offset1 + size_bo b1 + 4095) 4096)
             in case (if map_bo b1 = None \<and> 0 < size_bo b1
                      then (case gem_mmap env (handle obj) (size_bo b1) of
                              None \<Rightarrow> Inl (Trap ''intel_aubdump: bo mmap failed'')
                            | Some m \<Rightarrow> Inr (b1\<lparr>map_bo := Some m\<rparr>))
                      else Inr b1) of
                  Inl e \<Rightarrow> Inl e
                | Inr b2 \<Rightarrow>
                    (case map_ppgtt_files [0, 1] b2
                            (st\<lparr>bos := (bos st)(handle obj := b2),
                                stdout := (if verbose st \<noteq> 0 then stdout st @ [msg]
                                           else stdout st)\<rparr>) of
                       Inl e \<Rightarrow> Inl e
                     | Inr st' \<Rightarrow> Inr (Next (st', offset2)))))"

fun assign_loop ::
  "environment \<Rightarrow> drm_i915_gem_exec_object2 list \<Rightarrow> shim_state \<times> 32 word \<Rightarrow>
   error + (shim_state \<times> 32 word) flow" where
  "assign_loop env [] s = Inr (Next s)"
| "assign_loop env (obj # objs) s =
     (case assign_buffer env obj (fst s) (snd s) of
        Inl e \<Rightarrow> Inl e
      | Inr (Return st) \<Rightarrow> Inr (Return st)
      | Inr (Next s') \<Rightarrow> assign_loop env objs s')"

text \<open>
  The second loop writes every buffer to every open file; the batch buffer is the one
  whose \<^verbatim>\<open>struct bo\<close> is \<^verbatim>\<open>batch_bo\<close>, that is the one with the batch's handle.
\<close>

fun write_block_files ::
  "nat list \<Rightarrow> 32 word \<Rightarrow> byte list option \<Rightarrow> bo \<Rightarrow> shim_state \<Rightarrow> error + shim_state" where
  "write_block_files [] type data b st = Inr st"
| "write_block_files (i # is) type data b st =
     (if files st ! i = None then write_block_files is type data b st
      else (case aub_write_trace_block (aubs st ! i) type data (size_bo b) (offset_bo b) of
              None \<Rightarrow> Inl Fault
            | Some out \<Rightarrow>
                (case data_out (streams st) (aubs st ! i) out of
                   Inl e \<Rightarrow> Inl e
                 | Inr str \<Rightarrow> write_block_files is type data b (st\<lparr>streams := str\<rparr>))))"

fun write_loop ::
  "drm_i915_gem_execbuffer2 \<Rightarrow> 32 word \<Rightarrow> drm_i915_gem_exec_object2 list \<Rightarrow> shim_state \<Rightarrow>
   error + shim_state" where
  "write_loop execbuffer2 batch_handle [] st = Inr st"
| "write_loop execbuffer2 batch_handle (obj # objs) st =
     (case get_bo (bos st) (handle obj) of
        Inl e \<Rightarrow> Inl e
      | Inr b \<Rightarrow>
          (case (if relocs obj \<noteq> []
                 then (case relocate_bo (devinfo st) (bos st) execbuffer2 b obj of
                         Inl e \<Rightarrow> Inl e
                       | Inr relocated \<Rightarrow> Inr (Some relocated))
                 else Inr (map_bo b)) of
             Inl e \<Rightarrow> Inl e
           | Inr data \<Rightarrow>
               (case write_block_files [0, 1]
                       (if handle obj = batch_handle then AUB_TRACE_TYPE_BATCH
                        else AUB_TRACE_TYPE_NOTYPE) data b st of
                  Inl e \<Rightarrow> Inl e
                | Inr st' \<Rightarrow> write_loop execbuffer2 batch_handle objs st')))"

text \<open>
  The last loop, as the source has it: a slot whose file is open is skipped
  (\<^verbatim>\<open>if (files[i] != NULL) continue;\<close>) and \<^verbatim>\<open>aub_write_exec\<close> is called for the
  others.
\<close>

fun write_exec_files ::
  "nat list \<Rightarrow> 64 word \<Rightarrow> 64 word \<Rightarrow> 32 word \<Rightarrow> shim_state \<Rightarrow> error + shim_state" where
  "write_exec_files [] batch_addr offset ring_flag st = Inr st"
| "write_exec_files (i # is) batch_addr offset ring_flag st =
     (if files st ! i \<noteq> None then write_exec_files is batch_addr offset ring_flag st
      else (case aub_write_exec (aubs st ! i) batch_addr offset ring_flag of
              None \<Rightarrow> Inl Fault
            | Some out \<Rightarrow>
                (case data_out (streams st) (aubs st ! i) out of
                   Inl e \<Rightarrow> Inl e
                 | Inr str \<Rightarrow>
                     write_exec_files is batch_addr offset ring_flag (st\<lparr>streams := str\<rparr>))))"

text \<open>
  \<^verbatim>\<open>dump_execbuffer2\<close>. With an empty buffer list \<^verbatim>\<open>exec_objects[batch_index]\<close> is
  read outside the list (a fault). The signalling of fences at the end goes to the kernel
  only and is left out.
\<close>

definition dump_execbuffer2 ::
  "environment \<Rightarrow> shim_state \<Rightarrow> drm_i915_gem_execbuffer2 \<Rightarrow> error + shim_state" where
  "dump_execbuffer2 env st0 execbuffer2 =
     (let ring_flag = (ucast (flags execbuffer2 AND I915_EXEC_RING_MASK) :: 32 word)
      in case identify_device env st0 of
           Inl e \<Rightarrow> Inl e
         | Inr st1 \<Rightarrow>
             (let any_aub = (if files st1 ! 0 \<noteq> None then aubs st1 ! 0 else aubs st1 ! 1);
                  offset = (if aub_use_execlists any_aub then 0x1000 else aub_gtt_size any_aub);
                  st2 = (if verbose st1 \<noteq> 0 then st1\<lparr>stdout := stdout st1 @ [Msg_dumping]\<rparr>
                         else st1)
              in case assign_loop env (buffers execbuffer2) (st2, offset) of
                   Inl e \<Rightarrow> Inl e
                 | Inr (Return st) \<Rightarrow> Inr st
                 | Inr (Next (st3, offset')) \<Rightarrow>
                     if buffers execbuffer2 = [] then Inl Fault
                     else
                       (let batch_index =
                              (if flags execbuffer2 AND I915_EXEC_BATCH_FIRST \<noteq> 0 then 0
                               else length (buffers execbuffer2) - 1);
                            batch_handle = handle (buffers execbuffer2 ! batch_index)
                        in case get_bo (bos st3) batch_handle of
                             Inl e \<Rightarrow> Inl e
                           | Inr batch_bo \<Rightarrow>
                               (case write_loop execbuffer2 batch_handle
                                       (buffers execbuffer2) st3 of
                                  Inl e \<Rightarrow> Inl e
                                | Inr st4 \<Rightarrow>
                                    write_exec_files [0, 1]
                                      (offset_bo batch_bo + ucast (batch_start_offset execbuffer2))
                                      (ucast offset') ring_flag st4))))"

text \<open>
  \<^verbatim>\<open>add_new_bo\<close>, called when the kernel has created or opened a buffer. The handle
  is a \<^verbatim>\<open>__u32\<close> of the kernel passed as an \<^verbatim>\<open>int\<close>: a handle of \<open>2\<^sup>3\<^sup>1\<close> or more
  is negative there, passes the range check, and the stores go before the array
  \<^verbatim>\<open>bos\<close> (a fault). The size is cut to 32 bits when it is stored.
\<close>

definition add_new_bo ::
  "shim_state \<Rightarrow> 32 word \<Rightarrow> 64 word \<Rightarrow> byte list option \<Rightarrow> error + shim_state" where
  "add_new_bo st h size' m =
     (if int MAX_BO_COUNT \<le> sint h then Inl (Trap ''intel_aubdump: bo handle out of range'')
      else if size' = 0 then Inl (Trap ''intel_aubdump: bo size is invalid'')
      else if sint h < 0 then Inl Fault
      else Inr (st\<lparr>bos := (bos st)(h := (bos st h)\<lparr>size_bo := ucast size', map_bo := m\<rparr>)\<rparr>))"


section \<open>A worked submission\<close>

text \<open>
  A small capture session used in the examples below: a generation-7 device (legacy
  dialect), streams 0 (the file) and 1 (the command pipe), and one registered buffer,
  handle 1, of 8 bytes. Every other handle is unregistered (size 0).
\<close>

definition example_env :: environment where
  "example_env = \<lparr>gem_get_param = 0, gen_get_device_info = (\<lambda>d. None),
                   gem_mmap = (\<lambda>h s. None), aub_write_header = (\<lambda>aub. [])\<rparr>"

definition example_aub :: "nat \<Rightarrow> aub_file" where
  "example_aub f = \<lparr>file' = Some f, pci_id = 0x0166, devinfo_gen = 7, addr_bits = 32,
                     aub_pml4 = (\<lambda>t. None)\<rparr>"

definition example_bos :: "32 word \<Rightarrow> bo" where
  "example_bos = (\<lambda>h. \<lparr>size_bo = 0, offset_bo = 0, map_bo = None\<rparr>)
     (1 := \<lparr>size_bo = 8, offset_bo = 0, map_bo = Some [1, 2, 3, 4, 5, 6, 7, 8]\<rparr>)"

definition example_shim :: "nat option list \<Rightarrow> aub_file list \<Rightarrow> shim_state" where
  "example_shim fs as = \<lparr>device = 0x0166, devinfo = 7, files = fs, streams = (\<lambda>f. []),
      aubs = as, bos = example_bos, verbose = 0, stdout = [], allocator = 0x1e\<rparr>"

definition example_submit :: "32 word \<Rightarrow> drm_i915_gem_execbuffer2" where
  "example_submit h = \<lparr>buffers = [\<lparr>handle = h, relocs = [], alignment = 0, offset_obj = 0,
                                   flags_obj = 0\<rparr>],
                        batch_start_offset = 0, flags = 0\<rparr>"


text \<open>
  A buffer of 32 zero bytes with two relocation entries, in a submission that refers to
  buffers by their place in its list (\<^verbatim>\<open>I915_EXEC_HANDLE_LUT\<close>): the entry at offset 8
  refers to the second buffer of the list (handle 7, at \<open>0x0000800000000000\<close>) with delta
  \<open>0x1000\<close>, the entry at offset 16 to the first (handle 5, at \<open>0x2000\<close>) with delta
  \<open>0x10\<close>.
\<close>

definition example_reloc_bos :: "32 word \<Rightarrow> bo" where
  "example_reloc_bos =
     (\<lambda>h. \<lparr>size_bo = 4096, offset_bo = (if h = 7 then 0x0000800000000000 else 0x2000),
           map_bo = None\<rparr>)"

definition example_reloc_submit :: drm_i915_gem_execbuffer2 where
  "example_reloc_submit =
     \<lparr>buffers = [\<lparr>handle = 5, relocs = [], alignment = 0, offset_obj = 0, flags_obj = 0\<rparr>,
                 \<lparr>handle = 7, relocs = [], alignment = 0, offset_obj = 0, flags_obj = 0\<rparr>],
      batch_start_offset = 0, flags = I915_EXEC_HANDLE_LUT\<rparr>"

definition example_reloc_bo :: bo where
  "example_reloc_bo = \<lparr>size_bo = 32, offset_bo = 0, map_bo = Some (replicate 32 0)\<rparr>"

definition example_reloc_obj :: drm_i915_gem_exec_object2 where
  "example_reloc_obj =
     \<lparr>handle = 9,
      relocs = [\<lparr>target_handle = 1, delta = 0x1000, offset_reloc = 8\<rparr>,
                \<lparr>target_handle = 0, delta = 0x10, offset_reloc = 16\<rparr>],
      alignment = 0, offset_obj = 0, flags_obj = 0\<rparr>"


section \<open>Container decoder\<close>

text \<open>
  The decoder reads the file as an array of 32-bit words (\<^verbatim>\<open>file->map\<close>,
  \<^verbatim>\<open>file->cursor\<close>, \<^verbatim>\<open>file->end\<close>): a list of words and an index. A pointer into
  memory is a \<open>view\<close>: the number of bytes that can be read from it and the byte at each
  offset. Reading past the end of a view is a fault.
\<close>

record view =
  len :: nat
  at :: "nat \<Rightarrow> byte"

definition view_of_list :: "byte list \<Rightarrow> view" where
  "view_of_list bs = \<lparr>len = length bs, at = (\<lambda>k. bs ! k)\<rparr>"

definition file_view :: "32 word list \<Rightarrow> nat \<Rightarrow> view" where
  "file_view ws i =
     \<lparr>len = 4 * (length ws - i),
      at = (\<lambda>k. ucast (drop_bit (8 * (k mod 4)) (ws ! (i + k div 4))))\<rparr>"

definition view_drop :: "nat \<Rightarrow> view \<Rightarrow> view" where
  "view_drop n v = \<lparr>len = len v - n, at = (\<lambda>k. at v (n + k))\<rparr>"

definition view_bytes :: "view \<Rightarrow> nat \<Rightarrow> nat \<Rightarrow> byte list" where
  "view_bytes v off n = map (at v) [off ..< off + n]"

definition view32 :: "view \<Rightarrow> nat \<Rightarrow> 32 word option" where
  "view32 v off = (if off + 4 \<le> len v then Some (of_le (view_bytes v off 4)) else None)"

definition view64 :: "view \<Rightarrow> nat \<Rightarrow> 64 word option" where
  "view64 v off = (if off + 8 \<le> len v then Some (of_le (view_bytes v off 8)) else None)"

text \<open>
  \<^verbatim>\<open>struct gen_batch_decode_bo { uint64_t addr; uint32_t size; const void *map; }\<close>;
  a null \<^verbatim>\<open>map\<close> is \<open>None\<close>. \<^verbatim>\<open>struct bo_map\<close> is a node of the list \<^verbatim>\<open>maps\<close>.
\<close>

record gen_batch_decode_bo =
  addr :: "64 word"
  size_dbo :: "32 word"
  map_dbo :: "view option"

record bo_map =
  bo_of :: gen_batch_decode_bo
  unmap_after_use :: bool

text \<open>
  Modelled from the spec: \<^verbatim>\<open>util/rb_tree.h\<close> is not among the sources. The decoder's
  tables \<^verbatim>\<open>ggtt\<close> and \<^verbatim>\<open>mem\<close> are ordered maps with nearest-match lookup; here they
  are association lists kept in increasing order of the key. A \<^verbatim>\<open>struct ggtt_entry\<close> is
  a pair of \<^verbatim>\<open>virt_addr\<close> and \<^verbatim>\<open>phys_addr\<close>; a \<^verbatim>\<open>struct phys_mem\<close> is a pair of
  \<^verbatim>\<open>phys_addr\<close> and the 4096 bytes of \<^verbatim>\<open>data\<close>. A sloppy search followed by the
  caller's step to the next node finds the first entry whose key is not below the one
  looked for.
\<close>

type_synonym 'v rb_tree = "(64 word \<times> 'v) list"

fun rb_tree_search :: "'v rb_tree \<Rightarrow> 64 word \<Rightarrow> 'v option" where
  "rb_tree_search [] k = None"
| "rb_tree_search ((k', v) # t) k = (if k' = k then Some v else rb_tree_search t k)"

fun rb_tree_store :: "64 word \<Rightarrow> 'v \<Rightarrow> 'v rb_tree \<Rightarrow> 'v rb_tree" where
  "rb_tree_store k v [] = [(k, v)]"
| "rb_tree_store k v ((k', v') # t) =
     (if k' = k then (k, v) # t
      else if k < k' then (k, v) # (k', v') # t
      else (k', v') # rb_tree_store k v t)"

fun rb_tree_from :: "'v rb_tree \<Rightarrow> 64 word \<Rightarrow> 'v rb_tree" where
  "rb_tree_from [] k = []"
| "rb_tree_from ((k', v) # t) k = (if k' < k then rb_tree_from t k else (k', v) # t)"

text \<open>
  The state of the decoder: the device, the three tables, the static
  \<^verbatim>\<open>struct execlist_regs\<close> of \<^verbatim>\<open>handle_memtrace_reg_write\<close>, and what has been
  printed to \<^verbatim>\<open>outfile\<close> or handed to the disassembler (\<^verbatim>\<open>gen_print_batch\<close>, with
  the bytes it is given and their number).
\<close>

datatype event =
    Banner "16 word" "byte list"
  | Unknown_opcode "32 word" nat nat
  | Unknown_block "32 word"
  | Memory_poll "32 word"
  | Unknown_ring "32 word"
  | Gen_print_batch "byte list" "32 word"

record decoder =
  pci_id_d :: "16 word"
  gen_d :: nat
  maps :: "bo_map list"
  ggtt :: "64 word rb_tree"
  mem :: "(nat \<Rightarrow> byte) rb_tree"
  render_elsp :: "nat \<Rightarrow> 32 word"
  render_elsp_index :: nat
  blitter_elsp :: "nat \<Rightarrow> 32 word"
  blitter_elsp_index :: nat
  outfile :: "event list"

text \<open>
  What the decoder needs from outside the sources: \<^verbatim>\<open>gen_get_device_info\<close> and the
  device id that \<^verbatim>\<open>sscanf\<close> finds in a header's \<^verbatim>\<open>PCI-ID=\<close> tag.
\<close>

record decoder_env =
  device_info :: "16 word \<Rightarrow> nat option"
  scan_pci_id :: "byte list \<Rightarrow> 16 word"

definition gen_48b_address :: "64 word \<Rightarrow> 64 word" where
  "gen_48b_address v = drop_bit (63 - 47) (push_bit (63 - 47) v)"

definition add_gtt_bo_map :: "gen_batch_decode_bo \<Rightarrow> bool \<Rightarrow> decoder \<Rightarrow> decoder" where
  "add_gtt_bo_map b unmap d = d\<lparr>maps := \<lparr>bo_of = b, unmap_after_use = unmap\<rparr> # maps d\<rparr>"

definition clear_bo_maps :: "decoder \<Rightarrow> decoder" where
  "clear_bo_maps d = d\<lparr>maps := []\<rparr>"

definition search_ggtt_entry :: "decoder \<Rightarrow> 64 word \<Rightarrow> 64 word option" where
  "search_ggtt_entry d virt_addr = rb_tree_search (ggtt d) (virt_addr AND NOT 0xfff)"

definition search_phys_mem :: "decoder \<Rightarrow> 64 word \<Rightarrow> (nat \<Rightarrow> byte) option" where
  "search_phys_mem d phys_address = rb_tree_search (mem d) (phys_address AND NOT 0xfff)"

text \<open>
  \<^verbatim>\<open>handle_ggtt_entry_write\<close>: one 64-bit entry per page, starting at the page whose
  number is \<^verbatim>\<open>address / 8\<close>.
\<close>

fun ggtt_entry_loop :: "view \<Rightarrow> nat list \<Rightarrow> 64 word \<Rightarrow> 64 word rb_tree \<Rightarrow> error + 64 word rb_tree" where
  "ggtt_entry_loop data [] virt_addr t = Inr t"
| "ggtt_entry_loop data (i # is) virt_addr t =
     (case view64 data (8 * i) of
        None \<Rightarrow> Inl Fault
      | Some entry \<Rightarrow> ggtt_entry_loop data is (virt_addr + 4096) (rb_tree_store virt_addr entry t))"

definition handle_ggtt_entry_write :: "64 word \<Rightarrow> view \<Rightarrow> 32 word \<Rightarrow> decoder \<Rightarrow> error + decoder" where
  "handle_ggtt_entry_write address data size' d =
     (case ggtt_entry_loop data [0 ..< unat size' div 8] (push_bit 12 (address div 8)) (ggtt d) of
        Inl e \<Rightarrow> Inl e
      | Inr t \<Rightarrow> Inr (d\<lparr>ggtt := t\<rparr>))"

text \<open>
  \<^verbatim>\<open>handle_physical_write\<close>: the loop over the pages of
  \<^verbatim>\<open>[phys_address, phys_address + size)\<close>. The page counter is a 64-bit value; where
  adding 4096 would wrap it around, the loop of the source does not end.
\<close>

definition ensure_phys_mem :: "(nat \<Rightarrow> byte) rb_tree \<Rightarrow> 64 word \<Rightarrow> (nat \<Rightarrow> byte)" where
  "ensure_phys_mem t phys_address =
     (case rb_tree_search t phys_address of
        None \<Rightarrow> (\<lambda>k. 0)
      | Some m \<Rightarrow> m)"

definition memcpy_page :: "(nat \<Rightarrow> byte) \<Rightarrow> nat \<Rightarrow> view \<Rightarrow> nat \<Rightarrow> nat \<Rightarrow> (nat \<Rightarrow> byte)" where
  "memcpy_page page_data offset data src n =
     (\<lambda>k. if offset \<le> k \<and> k < offset + n then at data (src + (k - offset)) else page_data k)"

function physical_write_loop ::
  "nat \<Rightarrow> nat \<Rightarrow> view \<Rightarrow> nat \<Rightarrow> nat \<Rightarrow> nat \<Rightarrow> (nat \<Rightarrow> byte) rb_tree \<Rightarrow>
   error + (nat \<Rightarrow> byte) rb_tree" where
  "physical_write_loop phys_address end data src to_write page t =
     (if page < end
      then (let page_data = ensure_phys_mem t (of_nat page);
                offset = max page phys_address - page;
                size_this_page = min to_write (4096 - offset)
            in if len data < src + size_this_page then Inl Fault
               else if 2 ^ 64 \<le> page + 4096 then Inl Endless
               else physical_write_loop phys_address end data (src + size_this_page)
                      (to_write - size_this_page) (page + 4096)
                      (rb_tree_store (of_nat page)
                         (memcpy_page page_data offset data src size_this_page) t))
      else Inr t)"
  by pat_completeness auto
termination
  by (relation "measure (\<lambda>(phys_address, end, data, src, to_write, page, t). end - page)") auto

declare physical_write_loop.simps [simp del]

definition handle_physical_write ::
  "64 word \<Rightarrow> view \<Rightarrow> nat \<Rightarrow> 32 word \<Rightarrow> (nat \<Rightarrow> byte) rb_tree \<Rightarrow> error + (nat \<Rightarrow> byte) rb_tree" where
  "handle_physical_write phys_address data src size' t =
     physical_write_loop (unat phys_address) (unat (phys_address + ucast size')) data src
       (unat size') (unat (phys_address AND NOT 0xfff)) t"

text \<open>
  \<^verbatim>\<open>handle_ggtt_write\<close>: every page of the virtual range must have a valid GGTT entry
  (\<^verbatim>\<open>assert(entry && entry->phys_addr & 0x1)\<close>); the part of the write that falls into
  the page goes to the physical page of the entry.
\<close>

function ggtt_write_loop ::
  "64 word rb_tree \<Rightarrow> nat \<Rightarrow> nat \<Rightarrow> view \<Rightarrow> nat \<Rightarrow> nat \<Rightarrow> nat \<Rightarrow> (nat \<Rightarrow> byte) rb_tree \<Rightarrow>
   error + (nat \<Rightarrow> byte) rb_tree" where
  "ggtt_write_loop g virt_address end data src to_write page t =
     (if page < end
      then (case rb_tree_search g (of_nat page AND NOT 0xfff) of
              None \<Rightarrow> Inl Assert_failed
            | Some entry_phys_addr \<Rightarrow>
                if entry_phys_addr AND 0x1 = 0 then Inl Assert_failed
                else
                  (let offset = max page virt_address - page;
                       size_this_page = min to_write (4096 - offset);
                       phys_page = entry_phys_addr AND NOT 0xfff
                   in case handle_physical_write (phys_page + of_nat offset) data src
                             (of_nat size_this_page) t of
                        Inl e \<Rightarrow> Inl e
                      | Inr t' \<Rightarrow>
                          if 2 ^ 64 \<le> page + 4096 then Inl Endless
                          else ggtt_write_loop g virt_address end data (src + size_this_page)
                                 (to_write - size_this_page) (page + 4096) t'))
      else Inr t)"
  by pat_completeness auto
termination
  by (relation "measure (\<lambda>(g, virt_address, end, data, src, to_write, page, t). end - page)") auto

declare ggtt_write_loop.simps [simp del]

definition handle_ggtt_write :: "64 word \<Rightarrow> view \<Rightarrow> 32 word \<Rightarrow> decoder \<Rightarrow> error + decoder" where
  "handle_ggtt_write virt_address data size' d =
     (case ggtt_write_loop (ggtt d) (unat virt_address) (unat (virt_address + ucast size')) data 0
             (unat size') (unat (virt_address AND NOT 0xfff)) (mem d) of
        Inl e \<Rightarrow> Inl e
      | Inr t \<Rightarrow> Inr (d\<lparr>mem := t\<rparr>))"

text \<open>
  \<^verbatim>\<open>get_ggtt_batch_bo\<close>: a mapping already in \<^verbatim>\<open>maps\<close> that holds the address is
  returned; otherwise the run of consecutive GGTT entries that starts at the first entry
  not below the page of the address is mapped: the pages that have physical memory show
  its contents, the others read as zero.
\<close>

fun find_bo_map :: "bo_map list \<Rightarrow> 64 word \<Rightarrow> gen_batch_decode_bo option" where
  "find_bo_map [] address = None"
| "find_bo_map (i # is) address =
     (if addr (bo_of i) \<le> address \<and> address < addr (bo_of i) + ucast (size_dbo (bo_of i))
      then Some (bo_of i)
      else find_bo_map is address)"

fun ggtt_run :: "64 word \<times> 64 word \<Rightarrow> 64 word rb_tree \<Rightarrow> (64 word \<times> 64 word) list" where
  "ggtt_run last_entry [] = [last_entry]"
| "ggtt_run last_entry (i # is) =
     (if fst last_entry + 4096 = fst i then last_entry # ggtt_run i is else [last_entry])"

fun ggtt_run_view ::
  "decoder \<Rightarrow> 64 word \<Rightarrow> (64 word \<times> 64 word) list \<Rightarrow> (nat \<Rightarrow> byte) \<Rightarrow> (nat \<Rightarrow> byte)" where
  "ggtt_run_view d address [] m = m"
| "ggtt_run_view d address (i # is) m =
     (case search_phys_mem d (snd i AND NOT 0xfff) of
        None \<Rightarrow> ggtt_run_view d address is m
      | Some page_data \<Rightarrow>
          (let map_offset = unat (ucast (fst i - address) :: 32 word)
           in ggtt_run_view d address is
                (\<lambda>k. if map_offset \<le> k \<and> k < map_offset + 4096 then page_data (k - map_offset)
                     else m k)))"

definition get_ggtt_batch_bo :: "decoder \<Rightarrow> 64 word \<Rightarrow> gen_batch_decode_bo \<times> decoder" where
  "get_ggtt_batch_bo d address0 =
     (case find_bo_map (maps d) address0 of
        Some b \<Rightarrow> (b, d)
      | None \<Rightarrow>
          (let address = address0 AND NOT 0xfff
           in case rb_tree_from (ggtt d) address of
                [] \<Rightarrow> (\<lparr>addr = 0, size_dbo = 0, map_dbo = None\<rparr>, d)
              | start # rest \<Rightarrow>
                  (let run = ggtt_run start rest;
                       bo_addr = min address (fst start);
                       bo_size = (ucast (fst (last run) - bo_addr + 4096) :: 32 word);
                       b = \<lparr>addr = bo_addr, size_dbo = bo_size,
                            map_dbo = Some \<lparr>len = unat bo_size,
                                              at = ggtt_run_view d address run (\<lambda>k. 0)\<rparr>\<rparr>
                   in (b, add_gtt_bo_map b True d))))"

text \<open>
  The word \<^verbatim>\<open>p[i]\<close> of the record at the cursor; a read past \<^verbatim>\<open>file->end\<close> is a
  fault. \<open>batch_bytes\<close> is what the disassembler is handed: the bytes behind the pointer,
  as many as the size asks for and the mapping holds.
\<close>

definition rd :: "32 word list \<Rightarrow> nat \<Rightarrow> nat \<Rightarrow> 32 word option" where
  "rd ws c i = (if c + i < length ws then Some (ws ! (c + i)) else None)"

definition batch_bytes :: "view \<Rightarrow> nat \<Rightarrow> 32 word \<Rightarrow> byte list" where
  "batch_bytes v off size' = view_bytes v off (min (unat size') (len v - off))"

definition gen_print_batch :: "view \<Rightarrow> nat \<Rightarrow> 32 word \<Rightarrow> decoder \<Rightarrow> decoder" where
  "gen_print_batch v off size' d =
     d\<lparr>outfile := outfile d @ [Gen_print_batch (batch_bytes v off size') size']\<rparr>"

definition aubinator_init :: "decoder_env \<Rightarrow> 16 word \<Rightarrow> byte list \<Rightarrow> decoder \<Rightarrow> error + decoder" where
  "aubinator_init env aub_pci_id app_name d =
     (case device_info env (pci_id_d d) of
        None \<Rightarrow> Inl Exit_failure
      | Some g \<Rightarrow> Inr (d\<lparr>gen_d := g, outfile := outfile d @ [Banner aub_pci_id app_name]\<rparr>))"

definition handle_trace_header :: "decoder_env \<Rightarrow> 32 word list \<Rightarrow> nat \<Rightarrow> decoder \<Rightarrow> error + decoder" where
  "handle_trace_header env ws c d =
     (case rd ws c 0 of
        None \<Rightarrow> Inl Fault
      | Some p0 \<Rightarrow>
          (case (if 12 < unat (p0 AND 0xffff) + 2
                 then (case rd ws c 12 of
                         None \<Rightarrow> Inl Fault
                       | Some p12 \<Rightarrow>
                           Inr (if 0 < p12
                                then scan_pci_id env
                                       (view_bytes (file_view ws (c + 13)) 0
                                          (len (file_view ws (c + 13))))
                                else 0))
                 else Inr 0) of
             Inl e \<Rightarrow> Inl e
           | Inr aub_pci_id \<Rightarrow>
               if len (file_view ws (c + 2)) < 32 then Inl Fault
               else aubinator_init env aub_pci_id (view_bytes (file_view ws (c + 2)) 0 32)
                      (if pci_id_d d = 0 then d\<lparr>pci_id_d := aub_pci_id\<rparr> else d)))"

definition handle_memtrace_version :: "decoder_env \<Rightarrow> 32 word list \<Rightarrow> nat \<Rightarrow> decoder \<Rightarrow> error + decoder" where
  "handle_memtrace_version env ws c d =
     (case rd ws c 0 of
        None \<Rightarrow> Inl Fault
      | Some p0 \<Rightarrow>
          (let header_length = unat (p0 AND 0xffff)
           in if header_length + 1 < 5 then Inl Fault
              else
                (let app_name_len = min (4 * (header_length + 1 - 5)) 63
                 in if len (file_view ws (c + 5)) < app_name_len then Inl Fault
                    else
                      (let app_name = view_bytes (file_view ws (c + 5)) 0 app_name_len;
                           aub_pci_id = scan_pci_id env app_name
                       in aubinator_init env aub_pci_id app_name
                            (if pci_id_d d = 0 then d\<lparr>pci_id_d := aub_pci_id\<rparr> else d)))))"

definition handle_trace_block :: "32 word list \<Rightarrow> nat \<Rightarrow> decoder \<Rightarrow> error + decoder" where
  "handle_trace_block ws c d =
     (case (rd ws c 0, rd ws c 1, rd ws c 3, rd ws c 4,
            if 8 \<le> gen_d d then rd ws c 5 else Some 0) of
        (Some p0, Some p1, Some p3, Some p4, Some p5) \<Rightarrow>
          (let operation = p1 AND AUB_TRACE_OPERATION_MASK;
               type = p1 AND AUB_TRACE_TYPE_MASK;
               address_space = p1 AND AUB_TRACE_ADDRESS_SPACE_MASK;
               header_length = unat (p0 AND 0xffff);
               v = file_view ws (c + header_length + 2);
               b = \<lparr>addr = gen_48b_address (push_bit 32 (ucast p5) OR ucast p3),
                    size_dbo = p4, map_dbo = Some v\<rparr>
           in if operation = AUB_TRACE_OP_DATA_WRITE
              then Inr (if address_space = AUB_TRACE_MEMTYPE_GTT then add_gtt_bo_map b False d
                        else d)
              else if operation = AUB_TRACE_OP_COMMAND_WRITE
              then (let d1 = (if type = AUB_TRACE_TYPE_RING_PRB0 \<or> type = AUB_TRACE_TYPE_RING_PRB2
                              then d
                              else d\<lparr>outfile := outfile d @ [Unknown_ring type]\<rparr>)
                    in Inr (clear_bo_maps (gen_print_batch v 0 p4 d1)))
              else Inr d)
      | _ \<Rightarrow> Inl Fault)"

text \<open>
  \<^verbatim>\<open>handle_memtrace_reg_write\<close>, the execution-context tracker. The first part of the
  function collects the register values and either returns (\<open>None\<close>) or goes on with the
  context descriptor of the engine.
\<close>

definition reg_write_collect :: "32 word \<Rightarrow> 32 word \<Rightarrow> decoder \<Rightarrow> decoder \<times> 64 word option" where
  "reg_write_collect offset v d =
     (if offset = 0x2230
      then (let d1 = d\<lparr>render_elsp := (render_elsp d)(render_elsp_index d := v),
                        render_elsp_index := render_elsp_index d + 1\<rparr>
            in if render_elsp_index d1 < 4 then (d1, None)
               else (d1\<lparr>render_elsp_index := 0\<rparr>,
                     Some (push_bit 32 (ucast (render_elsp d1 2)) OR ucast (render_elsp d1 3))))
      else if offset = 0x22230
      then (let d1 = d\<lparr>blitter_elsp := (blitter_elsp d)(blitter_elsp_index d := v),
                        blitter_elsp_index := blitter_elsp_index d + 1\<rparr>
            in if blitter_elsp_index d1 < 4 then (d1, None)
               else (d1\<lparr>blitter_elsp_index := 0\<rparr>,
                     Some (push_bit 32 (ucast (blitter_elsp d1 2)) OR ucast (blitter_elsp d1 3))))
      else if offset = 0x2510 then (d\<lparr>render_elsp := (render_elsp d)(3 := v)\<rparr>, None)
      else if offset = 0x2514 then (d\<lparr>render_elsp := (render_elsp d)(2 := v)\<rparr>, None)
      else if offset = 0x22510 then (d\<lparr>blitter_elsp := (blitter_elsp d)(3 := v)\<rparr>, None)
      else if offset = 0x22514 then (d\<lparr>blitter_elsp := (blitter_elsp d)(2 := v)\<rparr>, None)
      else if offset = 0x2550
      then (d, Some (push_bit 32 (ucast (render_elsp d 2)) OR ucast (render_elsp d 3)))
      else if offset = 0x22550
      then (d, Some (push_bit 32 (ucast (blitter_elsp d 2)) OR ucast (blitter_elsp d 3)))
      else (d, None))"

definition view_at :: "gen_batch_decode_bo \<Rightarrow> 64 word \<Rightarrow> nat \<Rightarrow> 32 word option" where
  "view_at b off i =
     (case map_dbo b of
        None \<Rightarrow> None
      | Some v \<Rightarrow> view32 v (unat off + 4 * i))"

definition execlist_submit :: "64 word \<Rightarrow> decoder \<Rightarrow> error + decoder" where
  "execlist_submit context_descriptor d =
     (let pphwsp_size = 4096;
          pphwsp_addr = (ucast (context_descriptor AND 0xfffff000) :: 32 word);
          (pphwsp_bo, d1) = get_ggtt_batch_bo d (ucast pphwsp_addr);
          context = ucast pphwsp_addr - addr pphwsp_bo + pphwsp_size
      in case (view_at pphwsp_bo context 5, view_at pphwsp_bo context 7,
               view_at pphwsp_bo context 9, view_at pphwsp_bo context 49,
               view_at pphwsp_bo context 51) of
           (Some ring_buffer_head, Some ring_buffer_tail, Some ring_buffer_start,
            Some c49, Some c51) \<Rightarrow>
             (let (ring_bo, d2) = get_ggtt_batch_bo d1 (ucast ring_buffer_start)
              in if \<not> 0 < size_dbo ring_bo then Inl Assert_failed
                 else (case map_dbo ring_bo of
                         None \<Rightarrow> Inl Fault
                       | Some v \<Rightarrow>
                           Inr (clear_bo_maps
                                  (gen_print_batch v
                                     (unat (ucast ring_buffer_start - addr ring_bo))
                                     (ring_buffer_tail - ring_buffer_head) d2))))
         | _ \<Rightarrow> Inl Fault)"

definition handle_memtrace_reg_write :: "32 word list \<Rightarrow> nat \<Rightarrow> decoder \<Rightarrow> error + decoder" where
  "handle_memtrace_reg_write ws c d =
     (case (rd ws c 1, rd ws c 5) of
        (Some offset, Some v) \<Rightarrow>
          (case reg_write_collect offset v d of
             (d1, None) \<Rightarrow> Inr d1
           | (d1, Some context_descriptor) \<Rightarrow> execlist_submit context_descriptor d1)
      | _ \<Rightarrow> Inl Fault)"

definition handle_memtrace_mem_write :: "32 word list \<Rightarrow> nat \<Rightarrow> decoder \<Rightarrow> error + decoder" where
  "handle_memtrace_mem_write ws c d =
     (case (rd ws c 1, rd ws c 2, rd ws c 3, rd ws c 4) of
        (Some p1, Some p2, Some p3, Some p4) \<Rightarrow>
          (let v = file_view ws (c + 5);
               b = \<lparr>addr = gen_48b_address (push_bit 32 (ucast p2) OR ucast p1),
                    size_dbo = p4, map_dbo = Some v\<rparr>;
               address_space = drop_bit 28 p3
           in if address_space = 0 then handle_ggtt_write (addr b) v (size_dbo b) d
              else if address_space = 1 then Inr (add_gtt_bo_map b False d)
              else if address_space = 2
              then (case handle_physical_write (addr b) v 0 (size_dbo b) (mem d) of
                      Inl e \<Rightarrow> Inl e
                    | Inr t \<Rightarrow> Inr (d\<lparr>mem := t\<rparr>))
              else if address_space = 4 then handle_ggtt_entry_write (addr b) v (size_dbo b) d
              else Inr d)
      | _ \<Rightarrow> Inl Fault)"

text \<open>
  \<^verbatim>\<open>aub_file_decode_batch\<close> decodes the record at the cursor. It returns
  \<^verbatim>\<open>AUB_ITEM_DECODE_FAILED\<close> for an unknown opcode, and otherwise
  \<^verbatim>\<open>AUB_ITEM_DECODE_OK\<close> with the cursor moved behind the record.
\<close>

definition TYPE_field :: "32 word \<Rightarrow> 32 word" where "TYPE_field dw = drop_bit 29 dw AND 7"
definition OPCODE :: "32 word \<Rightarrow> 32 word" where "OPCODE dw = drop_bit 23 dw AND 0x3f"
definition SUBOPCODE :: "32 word \<Rightarrow> 32 word" where "SUBOPCODE dw = drop_bit 16 dw AND 0x7f"

datatype decode_result = AUB_ITEM_DECODE_OK decoder nat | AUB_ITEM_DECODE_FAILED decoder

definition dispatch :: "decoder_env \<Rightarrow> 32 word list \<Rightarrow> nat \<Rightarrow> 32 word \<Rightarrow> decoder \<Rightarrow> error + decoder" where
  "dispatch env ws c h d =
     (let k = h AND 0xffff0000
      in if k = MAKE_HEADER TYPE_AUB OPCODE_AUB SUBOPCODE_HEADER
         then handle_trace_header env ws c d
         else if k = MAKE_HEADER TYPE_AUB OPCODE_AUB SUBOPCODE_BLOCK
         then handle_trace_block ws c d
         else if k = MAKE_HEADER TYPE_AUB OPCODE_AUB SUBOPCODE_BMP
         then Inr d
         else if k = MAKE_HEADER TYPE_AUB OPCODE_NEW_AUB SUBOPCODE_VERSION
         then handle_memtrace_version env ws c d
         else if k = MAKE_HEADER TYPE_AUB OPCODE_NEW_AUB SUBOPCODE_REG_WRITE
         then handle_memtrace_reg_write ws c d
         else if k = MAKE_HEADER TYPE_AUB OPCODE_NEW_AUB SUBOPCODE_MEM_WRITE
         then handle_memtrace_mem_write ws c d
         else if k = MAKE_HEADER TYPE_AUB OPCODE_NEW_AUB SUBOPCODE_MEM_POLL
         then Inr (d\<lparr>outfile := outfile d @ [Memory_poll (h AND 0xffff)]\<rparr>)
         else if k = MAKE_HEADER TYPE_AUB OPCODE_NEW_AUB SUBOPCODE_REG_POLL
         then Inr d
         else Inr (d\<lparr>outfile := outfile d @ [Unknown_block h]\<rparr>))"

definition aub_file_decode_batch ::
  "decoder_env \<Rightarrow> 32 word list \<Rightarrow> nat \<Rightarrow> decoder \<Rightarrow> error + decode_result" where
  "aub_file_decode_batch env ws cursor d =
     (if \<not> cursor < length ws then Inl Assert_failed
      else
        (let h = ws ! cursor;
             header_length = unat (h AND 0xffff)
         in if OPCODE h \<noteq> OPCODE_AUB \<and> OPCODE h \<noteq> OPCODE_NEW_AUB
            then Inr (AUB_ITEM_DECODE_FAILED
                        (d\<lparr>outfile := outfile d @ [Unknown_opcode (OPCODE h) cursor (length ws)]\<rparr>))
            else
              (let bias = (if OPCODE h = OPCODE_AUB then 2 else 1)
               in case (if h AND 0xffff0000 = MAKE_HEADER TYPE_AUB OPCODE_AUB SUBOPCODE_BLOCK
                        then (if length ws - cursor < 4 then Inl Assert_failed
                              else (case rd ws cursor 4 of
                                      None \<Rightarrow> Inl Fault
                                    | Some p4 \<Rightarrow>
                                        Inr (cursor + header_length + bias + unat p4 div 4)))
                        else Inr (cursor + header_length + bias)) of
                    Inl e \<Rightarrow> Inl e
                  | Inr new_cursor \<Rightarrow>
                      if \<not> new_cursor \<le> length ws then Inl Assert_failed
                      else (case dispatch env ws cursor h d of
                              Inl e \<Rightarrow> Inl e
                            | Inr d' \<Rightarrow> Inr (AUB_ITEM_DECODE_OK d' new_cursor)))))"

lemma aub_file_decode_batch_advances:
  "aub_file_decode_batch env ws cursor d = Inr (AUB_ITEM_DECODE_OK d' c') \<Longrightarrow>
   cursor < c' \<and> c' \<le> length ws"
  by (auto simp add: aub_file_decode_batch_def Let_def split: if_splits sum.splits option.splits)

text \<open>
  The loop of \<^verbatim>\<open>main\<close>:
  \<^verbatim>\<open>while (aub_file_more_stuff(file) && aub_file_decode_batch(file) == AUB_ITEM_DECODE_OK);\<close>
\<close>

function decode_file :: "decoder_env \<Rightarrow> 32 word list \<Rightarrow> nat \<Rightarrow> decoder \<Rightarrow> error + decoder" where
  "decode_file env ws cursor d =
     (if cursor < length ws
      then (case aub_file_decode_batch env ws cursor d of
              Inl e \<Rightarrow> Inl e
            | Inr (AUB_ITEM_DECODE_FAILED d') \<Rightarrow> Inr d'
            | Inr (AUB_ITEM_DECODE_OK d' cursor') \<Rightarrow> decode_file env ws cursor' d')
      else Inr d)"
  by pat_completeness auto
termination
proof (relation "measure (\<lambda>(env, ws, cursor, d). length ws - cursor)", goal_cases)
  case 1 show ?case by simp
next
  case (2 env ws cursor d r d' cursor')
  then have "cursor < cursor'" "cursor' \<le> length ws"
    using aub_file_decode_batch_advances [of env ws cursor d d' cursor'] by simp_all
  then show ?case by (simp add: diff_less_mono2)
qed

declare decode_file.simps [simp del]


section \<open>A worked decoding session\<close>

text \<open>
  The record kinds that \<^verbatim>\<open>aub_file_decode_batch\<close> has a \<^verbatim>\<open>case\<close> for.
\<close>

definition handled_kinds :: "32 word list" where
  "handled_kinds =
     [MAKE_HEADER TYPE_AUB OPCODE_AUB SUBOPCODE_HEADER,
      MAKE_HEADER TYPE_AUB OPCODE_AUB SUBOPCODE_BLOCK,
      MAKE_HEADER TYPE_AUB OPCODE_AUB SUBOPCODE_BMP,
      MAKE_HEADER TYPE_AUB OPCODE_NEW_AUB SUBOPCODE_VERSION,
      MAKE_HEADER TYPE_AUB OPCODE_NEW_AUB SUBOPCODE_REG_WRITE,
      MAKE_HEADER TYPE_AUB OPCODE_NEW_AUB SUBOPCODE_MEM_WRITE,
      MAKE_HEADER TYPE_AUB OPCODE_NEW_AUB SUBOPCODE_MEM_POLL,
      MAKE_HEADER TYPE_AUB OPCODE_NEW_AUB SUBOPCODE_REG_POLL]"

text \<open>
  The decoder at start-up, an environment that knows no device, and a session in which
  three GGTT pages are mapped: page 0 is the hardware status page of a context, page
  \<open>0x1000\<close> holds the context image (ring head 4 at word 5, ring tail 12 at word 7, ring
  start \<open>0x2000\<close> at word 9) and page \<open>0x2000\<close> the ring, whose byte at offset \<open>k\<close> is
  \<open>k\<close>.
\<close>

definition decoder0 :: decoder where
  "decoder0 = \<lparr>pci_id_d = 0, gen_d = 0, maps = [], ggtt = [], mem = [],
               render_elsp = (\<lambda>i. 0), render_elsp_index = 0,
               blitter_elsp = (\<lambda>i. 0), blitter_elsp_index = 0, outfile = []\<rparr>"

definition example_decoder_env :: decoder_env where
  "example_decoder_env = \<lparr>device_info = (\<lambda>p. None), scan_pci_id = (\<lambda>bs. 0)\<rparr>"

definition example_context :: "nat \<Rightarrow> byte" where
  "example_context = (\<lambda>k. if k = 20 then 4 else if k = 28 then 12 else if k = 37 then 0x20 else 0)"

definition example_ring :: "nat \<Rightarrow> byte" where
  "example_ring = (\<lambda>k. of_nat k)"

definition example_decoder :: "nat \<Rightarrow> decoder" where
  "example_decoder i = decoder0
     \<lparr>ggtt := [(0, 0x1001), (0x1000, 0x2001), (0x2000, 0x3001)],
      mem := [(0x1000, (\<lambda>k. 0)), (0x2000, example_context), (0x3000, example_ring)],
      render_elsp_index := i\<rparr>"


text \<open>
  A second session, for the execution-context tracker: the hardware status page of a
  context is the GGTT page \<open>0x4000\<close>, the context image is the page \<open>0x5000\<close> behind it
  (ring head 4 at word 5, ring tail 12 at word 7, ring start \<open>0x6000\<close> at word 9), and the
  ring is the page \<open>0x6000\<close>, whose byte at offset \<open>k\<close> is \<open>k\<close>. \<open>port_writes\<close> is a file of
  four register-write records to the render submit port \<open>0x2230\<close>, the context descriptor
  in the last two (high half \<open>0x33\<close>, low half \<open>0x4000\<close>). \<open>control_writes\<close> is a file
  with one write to the submit port, the two halves of the descriptor written to the
  render submit queue (\<open>0x2514\<close>, \<open>0x2510\<close>) and a write to the render submit-control
  register \<open>0x2550\<close>.
\<close>

definition tracker_context :: "nat \<Rightarrow> byte" where
  "tracker_context = (\<lambda>k. if k = 20 then 4 else if k = 28 then 12 else if k = 37 then 0x60 else 0)"

definition tracker_decoder :: decoder where
  "tracker_decoder = decoder0
     \<lparr>ggtt := [(0x4000, 0x1001), (0x5000, 0x2001), (0x6000, 0x3001)],
      mem := [(0x1000, (\<lambda>k. 0)), (0x2000, tracker_context), (0x3000, example_ring)]\<rparr>"

definition port_writes :: "32 word list" where
  "port_writes =
     [0xF7030005, 0x2230, 0, 0, 0, 0x11,
      0xF7030005, 0x2230, 0, 0, 0, 0x22,
      0xF7030005, 0x2230, 0, 0, 0, 0x33,
      0xF7030005, 0x2230, 0, 0, 0, 0x4000]"

definition control_writes :: "32 word list" where
  "control_writes =
     [0xF7030005, 0x2230, 0, 0, 0, 0x11,
      0xF7030005, 0x2514, 0, 0, 0, 0x33,
      0xF7030005, 0x2510, 0, 0, 0, 0x4000,
      0xF7030005, 0x2550, 0, 0, 0, 1]"

section \<open>A submission with a relocation, encoded and decoded\<close>

text \<open>
  \<^verbatim>\<open>aub_file_open\<close> maps the bytes of the file and reads them as 32-bit words up to
  \<^verbatim>\<open>file->map + sb.st_size / 4\<close>: bytes after the last whole word are not read
  (\<open>file_words\<close>). An empty file cannot be mapped (\<^verbatim>\<open>mmap\<close> refuses the length 0) and
  the decoder exits.
\<close>

fun file_words :: "byte list \<Rightarrow> 32 word list" where
  "file_words (a # b # c # d # bs) = of_le [a, b, c, d] # file_words bs"
| "file_words bs = []"

definition aub_file_open :: "byte list \<Rightarrow> error + 32 word list" where
  "aub_file_open bs = (if bs = [] then Inl Exit_failure else Inr (file_words bs))"

text \<open>
  The session: a generation-7 device that has been identified, the file (stream 0) and
  the command pipe (stream 1) both open, buffer A (handle 1, 4096 bytes) and buffer B
  (handle 2, 8192 bytes), all bytes 0. The submission lists B and then A, so that A, the
  last buffer, is the batch; neither is pinned; A has one relocation, at its byte 8,
  pointing at B + \<open>0x10\<close>; the ring is the render ring.
\<close>

definition scenario_bos :: "32 word \<Rightarrow> bo" where
  "scenario_bos = (\<lambda>h. \<lparr>size_bo = 0, offset_bo = 0, map_bo = None\<rparr>)
     (1 := \<lparr>size_bo = 4096, offset_bo = 0, map_bo = Some (replicate 4096 0)\<rparr>,
      2 := \<lparr>size_bo = 8192, offset_bo = 0, map_bo = Some (replicate 8192 0)\<rparr>)"

definition scenario_shim :: "nat option list \<Rightarrow> aub_file list \<Rightarrow> shim_state" where
  "scenario_shim fs as = \<lparr>device = 0x0166, devinfo = 7, files = fs, streams = (\<lambda>f. []),
      aubs = as, bos = scenario_bos, verbose = 0, stdout = [], allocator = 0x1e\<rparr>"

definition scenario_submit :: drm_i915_gem_execbuffer2 where
  "scenario_submit =
     \<lparr>buffers = [\<lparr>handle = 2, relocs = [], alignment = 0, offset_obj = 0, flags_obj = 0\<rparr>,
                 \<lparr>handle = 1,
                  relocs = [\<lparr>target_handle = 2, delta = 0x10, offset_reloc = 8\<rparr>],
                  alignment = 0, offset_obj = 0, flags_obj = 0\<rparr>],
      batch_start_offset = 0, flags = ucast I915_EXEC_RENDER\<rparr>"

text \<open>
  The legacy header of a data block: the operation is a data write to GTT memory of the
  given type, at the given address, of the given size.
\<close>

definition data_block_header :: "32 word \<Rightarrow> 32 word \<Rightarrow> 32 word \<Rightarrow> byte list" where
  "data_block_header type address size' =
     le32 (CMD_AUB_TRACE_HEADER_BLOCK OR 3) @
     le32 (AUB_TRACE_MEMTYPE_GTT OR type OR AUB_TRACE_OP_DATA_WRITE) @
     le32 0 @ le32 address @ le32 size'"

definition is_execute_event :: "event \<Rightarrow> bool" where
  "is_execute_event e = (case e of Gen_print_batch bytes size' \<Rightarrow> True | _ \<Rightarrow> False)"

text \<open>
  The bytes of a stream that holds the data block of B at \<open>0x10000\<close> and the data block
  of A at \<open>0x13000\<close>, A with the address \<open>0x10010\<close> in its relocation slot, and nothing
  else.
\<close>

definition scenario_stream :: "byte list" where
  "scenario_stream =
     data_block_header AUB_TRACE_TYPE_NOTYPE 0x10000 8192 @ replicate 8192 0 @
     data_block_header AUB_TRACE_TYPE_BATCH 0x13000 4096 @
     replicate 8 0 @ le32 0x10010 @ replicate 4084 0"


section \<open>The loops of \<^verbatim>\<open>aub_map_ppgtt\<close> over natural numbers\<close>

text \<open>
  The four levels of \<^verbatim>\<open>aub_map_ppgtt\<close> do the same thing at four sizes. Slots of level
  \<open>n\<close> (0 for the pages of a level-1 table, up to 3 for the slots of the root table) cover
  \<open>2 ^ shift n\<close> bytes. For a table that covers the block of addresses starting at \<open>P\<close>,
  and a range of addresses from \<open>S\<close> to \<open>E\<close>, \<open>block_lo\<close> and \<open>block_hi\<close> are the
  \<^verbatim>\<open>max\<close> and \<^verbatim>\<open>min\<close> expressions of the source: the first and last address of the part
  of the block handled. \<open>pidx n a\<close> is the slot index of address \<open>a\<close> at level \<open>n\<close>
  (\<^verbatim>\<open>L1_index\<close> to \<^verbatim>\<open>L4_index\<close>) and \<open>tpath n a\<close> the path from the root to the slot
  of level \<open>n\<close> that holds \<open>a\<close> (\<open>tpath 4 a\<close> is the root table, \<open>tpath 3 a\<close> is
  \<^verbatim>\<open>L3_table(a)\<close>, and so on).
\<close>

definition shift :: "nat \<Rightarrow> nat" where
  "shift n = 12 + 9 * n"

definition block_lo :: "nat \<Rightarrow> nat \<Rightarrow> nat \<Rightarrow> nat" where
  "block_lo n P S = max P (S div 2 ^ shift n * 2 ^ shift n)"

definition block_hi :: "nat \<Rightarrow> nat \<Rightarrow> nat \<Rightarrow> nat" where
  "block_hi n P E = min (P + 2 ^ shift (Suc n) - 1) (E div 2 ^ shift n * 2 ^ shift n + 2 ^ shift n - 1)"

definition pidx :: "nat \<Rightarrow> nat \<Rightarrow> nat" where
  "pidx n a = a div 2 ^ shift n mod 512"

definition tpath :: "nat \<Rightarrow> nat \<Rightarrow> aub_ppgtt_table" where
  "tpath n a = map (\<lambda>m. pidx m a) (rev [n ..< 4])"

text \<open>
  A \<^verbatim>\<open>for (c = lo; c < hi; c += step) body\<close> loop, and the work done for one table:
  \<open>nmap n S E P\<close> populates the table of level \<open>n + 1\<close> that covers the block at \<open>P\<close> and
  then, unless its slots are pages, handles the table of each slot in turn. These are the
  loops of \<^verbatim>\<open>aub_map_ppgtt\<close> with the addresses as natural numbers.
\<close>

function gloop ::
  "nat \<Rightarrow> (nat \<Rightarrow> ppgtt \<times> byte list \<Rightarrow> (ppgtt \<times> byte list) option) \<Rightarrow> nat \<Rightarrow> nat \<Rightarrow>
   ppgtt \<times> byte list \<Rightarrow> (ppgtt \<times> byte list) option" where
  "gloop step body hi c acc =
     (if c < hi \<and> 0 < step
      then (case body c acc of
              None \<Rightarrow> None
            | Some acc' \<Rightarrow> gloop step body hi (c + step) acc')
      else Some acc)"
  by pat_completeness auto
termination
  by (relation "measure (\<lambda>(step, body, hi, c, acc). hi - c)") auto

declare gloop.simps [simp del]

primrec nmap ::
  "nat \<Rightarrow> nat \<Rightarrow> nat \<Rightarrow> nat \<Rightarrow> ppgtt \<times> byte list \<Rightarrow> (ppgtt \<times> byte list) option" where
  "nmap 0 S E P acc =
     populate_next acc (tpath 1 P) (pidx 0 (block_lo 0 P S)) (pidx 0 (block_hi 0 P E)) 1"
| "nmap (Suc n) S E P acc =
     (case populate_next acc (tpath (Suc (Suc n)) P)
             (pidx (Suc n) (block_lo (Suc n) P S)) (pidx (Suc n) (block_hi (Suc n) P E))
             (Suc (Suc n)) of
        None \<Rightarrow> None
      | Some acc' \<Rightarrow>
          gloop (2 ^ shift (Suc n)) (nmap n S E) (block_hi (Suc n) P E) (block_lo (Suc n) P S)
            acc')"

declare nmap.simps [simp del]

text \<open>
  What the proofs about the tables keep track of: the value of the allocator, and that a
  slot that has been filled keeps its value (\<open>extends\<close>).
\<close>

definition alloc :: "ppgtt \<times> byte list \<Rightarrow> nat" where
  "alloc acc = unat (phys_addrs_allocator (fst acc))"

definition extends :: "ppgtt \<times> byte list \<Rightarrow> ppgtt \<times> byte list \<Rightarrow> bool" where
  "extends acc acc' \<longleftrightarrow> (\<forall>t. pml4 (fst acc) t \<noteq> None \<longrightarrow> pml4 (fst acc') t = pml4 (fst acc) t)"

text \<open>
  The most slots that one call of \<open>nmap n\<close> can fill: 512 in its own table and, for each
  of these, what the table below can take.
\<close>

primrec budget :: "nat \<Rightarrow> nat" where
  "budget 0 = 512"
| "budget (Suc n) = 512 + 512 * budget n"

text \<open>
  The table of level \<open>n + 1\<close> that covers the block at \<open>P\<close> is visited for the range from
  \<open>S\<close> to \<open>E\<close> only if the block and the range have an address in common (\<open>meets\<close>).
\<close>

definition meets :: "nat \<Rightarrow> nat \<Rightarrow> nat \<Rightarrow> nat \<Rightarrow> bool" where
  "meets n P S E \<longleftrightarrow>
     2 ^ shift (Suc n) dvd P \<and> P \<le> E \<and> S < P + 2 ^ shift (Suc n) \<and> S \<le> E"


section \<open>The execute record and the open destinations (claim C1)\<close>

lemmas shim_eval =
  dump_execbuffer2_def identify_device_def example_env_def example_aub_def example_bos_def
  example_shim_def example_submit_def aub_use_execlists_def aub_gtt_size_def
  NUM_PT_ENTRIES_def MEMORY_MAP_SIZE_def PTE_SIZE_def GEN8_PTE_SIZE_def get_bo_def
  MAX_BO_COUNT_def EXEC_OBJECT_PINNED_def I915_EXEC_RING_MASK_def I915_EXEC_BATCH_FIRST_def
  assign_buffer_def align_u32_def data_out_def aub_write_trace_block_def aub_write_trace_block_loop.simps
  trace_block_record_def trace_block_header_def trace_block_payload_def trace_block_size_def aub_write_exec_def aub_dump_ringbuffer_def aub_write_reloc_def
  store_through_def aub_zero_def Let_def dword_out_def le32_def I915_EXEC_BLT_def
  I915_EXEC_BSD_def I915_EXEC_RENDER_def I915_EXEC_DEFAULT_def

lemma write_exec_files_all_open:
  "\<forall>i \<in> set is. files st ! i \<noteq> None \<Longrightarrow>
   write_exec_files is batch_addr offset ring_flag st = Inr st"
  by (induction "is") simp_all

text \<open>
  Claim C1 (the execute record is written to every open destination). The code does the
  opposite: the last loop of \<^verbatim>\<open>dump_execbuffer2\<close> skips every slot whose file is open.
  With both destinations open (generation 7, one buffer of 8 bytes with handle 1) each
  stream ends with the buffer's trace block and no execute record follows it, although
  \<^verbatim>\<open>aub_write_exec\<close> for that batch is a block of 28 bytes; with only the file open
  the call goes to the unopened slot, whose \<^verbatim>\<open>FILE *\<close> is null, and faults.
\<close>

theorem execute_record_skips_open_files:
  "(case dump_execbuffer2 example_env
            (example_shim [Some 0, Some 1] [example_aub 0, example_aub 1]) (example_submit 1) of
      Inl e \<Rightarrow> False
    | Inr st' \<Rightarrow>
        Some (streams st' 0) = aub_write_trace_block (example_aub 0) AUB_TRACE_TYPE_BATCH
                                 (Some [1, 2, 3, 4, 5, 6, 7, 8]) 8 0x10000 \<and>
        Some (streams st' 1) = aub_write_trace_block (example_aub 1) AUB_TRACE_TYPE_BATCH
                                 (Some [1, 2, 3, 4, 5, 6, 7, 8]) 8 0x10000) \<and>
   map_option length (aub_write_exec (example_aub 0) 0x10000 0x12000 0) = Some 28 \<and>
   dump_execbuffer2 example_env (example_shim [Some 0, None] [example_aub 0, aub_zero])
     (example_submit 1) = Inl Fault"
proof -
  have a: "(case dump_execbuffer2 example_env
            (example_shim [Some 0, Some 1] [example_aub 0, example_aub 1]) (example_submit 1) of
      Inl e \<Rightarrow> False
    | Inr st' \<Rightarrow>
        Some (streams st' 0) = aub_write_trace_block (example_aub 0) AUB_TRACE_TYPE_BATCH
                                 (Some [1, 2, 3, 4, 5, 6, 7, 8]) 8 0x10000 \<and>
        Some (streams st' 1) = aub_write_trace_block (example_aub 1) AUB_TRACE_TYPE_BATCH
                                 (Some [1, 2, 3, 4, 5, 6, 7, 8]) 8 0x10000)"
    by (simp add: shim_eval)
  have b: "map_option length (aub_write_exec (example_aub 0) 0x10000 0x12000 0) = Some 28"
    by (simp add: shim_eval)
  have c: "dump_execbuffer2 example_env (example_shim [Some 0, None] [example_aub 0, aub_zero])
     (example_submit 1) = Inl Fault"
    by (simp add: shim_eval)
  from a b c show ?thesis by (intro conjI)
qed


section \<open>Evaluating the page table emulator\<close>

lemmas ppgtt_eval =
  aub_map_ppgtt_def aub_map_ppgtt_l4.simps aub_map_ppgtt_l3.simps aub_map_ppgtt_l2.simps
  populate_next_def populate_ppgtt_table_def populate_loop.simps populate_slot_def
  phys_addr_def slot_value_def as_pointer_def L4_index_def L3_index_def L2_index_def
  L1_index_def L3_table_def L2_table_def L1_table_def ppgtt0_def PML4_PHYS_ADDR_def
  STATIC_GGTT_MAP_END_def VIDEO_CONTEXT_ADDR_def VIDEO_RING_ADDR_def BLITTER_CONTEXT_ADDR_def
  BLITTER_RING_ADDR_def RENDER_CONTEXT_ADDR_def RENDER_RING_ADDR_def STATIC_GGTT_MAP_START_def
  RING_SIZE_def PPHWSP_SIZE_def GEN10_LR_CONTEXT_RENDER_SIZE_def GEN8_LR_CONTEXT_OTHER_SIZE_def
  Let_def


section \<open>The dirty range of a populate call (claim C3)\<close>

lemma slot_value_Some: "slot_value (Some a) = a"
  by (simp add: slot_value_def)

lemma populate_slot_other:
  "k \<noteq> tbl @ [i] \<Longrightarrow> pml4 (pp (populate_slot level tbl i st)) k = pml4 (pp st) k"
  by (simp add: populate_slot_def Let_def)

lemma populate_slot_existing:
  "pml4 (pp st) k \<noteq> None \<Longrightarrow> pml4 (pp (populate_slot level tbl i st)) k = pml4 (pp st) k"
  by (auto simp add: populate_slot_def Let_def)

lemma populate_slot_full:
  "pml4 (pp st) (tbl @ [i]) \<noteq> None \<Longrightarrow>
   pp (populate_slot level tbl i st) = pp st \<and>
   dirty_start (populate_slot level tbl i st) = dirty_start st \<and>
   dirty_end (populate_slot level tbl i st) = dirty_end st"
  by (auto simp add: populate_slot_def Let_def)

lemma populate_slot_empty:
  "pml4 (pp st) (tbl @ [i]) = None \<Longrightarrow>
   dirty_start (populate_slot level tbl i st) = min (dirty_start st) i \<and>
   dirty_end (populate_slot level tbl i st) = max (dirty_end st) i"
  by (simp add: populate_slot_def Let_def)

lemma populate_slot_entries:
  "entries (populate_slot level tbl i st) =
     (entries st)(i := 3 OR slot_value (pml4 (pp (populate_slot level tbl i st)) (tbl @ [i])))"
  by (simp add: populate_slot_def Let_def)

lemma populate_loop_other:
  "(\<And>j. i \<le> j \<Longrightarrow> j \<le> end \<Longrightarrow> k \<noteq> tbl @ [j]) \<Longrightarrow>
   pml4 (pp (populate_loop level tbl i end st)) k = pml4 (pp st) k"
proof (induction level tbl i "end" st rule: populate_loop.induct)
  case (1 level tbl i "end" st)
  show ?case
  proof (cases "i \<le> end")
    case True
    have "pml4 (pp (populate_loop level tbl (Suc i) end (populate_slot level tbl i st))) k
            = pml4 (pp (populate_slot level tbl i st)) k"
      using True "1.prems" by (intro "1.IH") auto
    also have "\<dots> = pml4 (pp st) k"
      using True "1.prems" [of i] by (simp add: populate_slot_other)
    finally show ?thesis using True by (subst populate_loop.simps) simp
  next
    case False
    then show ?thesis by (subst populate_loop.simps) simp
  qed
qed

lemma populate_loop_existing:
  "pml4 (pp st) k \<noteq> None \<Longrightarrow> pml4 (pp (populate_loop level tbl i end st)) k = pml4 (pp st) k"
proof (induction level tbl i "end" st rule: populate_loop.induct)
  case (1 level tbl i "end" st)
  show ?case
  proof (cases "i \<le> end")
    case True
    have e: "pml4 (pp (populate_slot level tbl i st)) k = pml4 (pp st) k"
      using "1.prems" by (rule populate_slot_existing)
    with "1.prems" have "pml4 (pp (populate_slot level tbl i st)) k \<noteq> None" by simp
    from "1.IH" [OF True this] e True show ?thesis by (subst populate_loop.simps) simp
  next
    case False
    then show ?thesis by (subst populate_loop.simps) simp
  qed
qed

lemma populate_loop_entries_outside:
  "j < i \<or> end < j \<Longrightarrow> entries (populate_loop level tbl i end st) j = entries st j"
proof (induction level tbl i "end" st rule: populate_loop.induct)
  case (1 level tbl i "end" st)
  show ?case
  proof (cases "i \<le> end")
    case True
    from "1.prems" True have "j < Suc i \<or> end < j" "j \<noteq> i" by auto
    with "1.IH" [OF True] True show ?thesis
      by (subst populate_loop.simps) (simp add: populate_slot_entries)
  next
    case False
    then show ?thesis by (subst populate_loop.simps) simp
  qed
qed

lemma populate_loop_entries_inside:
  "i \<le> j \<Longrightarrow> j \<le> end \<Longrightarrow>
   entries (populate_loop level tbl i end st) j =
     3 OR slot_value (pml4 (pp (populate_loop level tbl i end st)) (tbl @ [j]))"
proof (induction level tbl i "end" st rule: populate_loop.induct)
  case (1 level tbl i "end" st)
  from "1.prems" have le: "i \<le> end" by simp
  show ?case
  proof (cases "j = i")
    case True
    have "entries (populate_loop level tbl (Suc i) end (populate_slot level tbl i st)) i
            = entries (populate_slot level tbl i st) i"
      by (rule populate_loop_entries_outside) simp
    moreover have "pml4 (pp (populate_loop level tbl (Suc i) end (populate_slot level tbl i st)))
                     (tbl @ [i])
                   = pml4 (pp (populate_slot level tbl i st)) (tbl @ [i])"
      by (rule populate_loop_other) simp
    ultimately show ?thesis using True le
      by (subst (1 2) populate_loop.simps) (simp add: populate_slot_entries)
  next
    case False
    with "1.prems" have "Suc i \<le> j" by simp
    from "1.IH" [OF le this "1.prems"(2)] le show ?thesis
      by (subst (1 2) populate_loop.simps) simp
  qed
qed

lemma new_slots_step:
  "i \<le> end \<Longrightarrow>
   new_slots s tbl i end =
     (if s (tbl @ [i]) = None then i # new_slots s tbl (Suc i) end
      else new_slots s tbl (Suc i) end)"
  by (simp add: new_slots_def upt_conv_Cons del: upt_Suc)

lemma new_slots_empty_range: "end < i \<Longrightarrow> new_slots s tbl i end = []"
  by (simp add: new_slots_def)

lemma new_slots_bounds: "x \<in> set (new_slots s tbl i end) \<Longrightarrow> i \<le> x \<and> x \<le> end"
  by (auto simp add: new_slots_def)

lemma new_slots_after_slot:
  "new_slots (pml4 (pp (populate_slot level tbl i st))) tbl (Suc i) end
     = new_slots (pml4 (pp st)) tbl (Suc i) end"
  unfolding new_slots_def
  by (rule filter_cong) (auto simp add: populate_slot_other)

lemma populate_loop_dirty:
  "dirty_start (populate_loop level tbl i end st) =
     (if new_slots (pml4 (pp st)) tbl i end = [] then dirty_start st
      else min (dirty_start st) (hd (new_slots (pml4 (pp st)) tbl i end))) \<and>
   dirty_end (populate_loop level tbl i end st) =
     (if new_slots (pml4 (pp st)) tbl i end = [] then dirty_end st
      else max (dirty_end st) (last (new_slots (pml4 (pp st)) tbl i end)))"
proof (induction level tbl i "end" st rule: populate_loop.induct)
  case (1 level tbl i "end" st)
  show ?case
  proof (cases "i \<le> end")
    case False
    then show ?thesis by (subst (1 2) populate_loop.simps) (simp add: new_slots_empty_range)
  next
    case True
    let ?st = "populate_slot level tbl i st"
    let ?n = "new_slots (pml4 (pp st)) tbl (Suc i) end"
    note ih = "1.IH" [OF True, unfolded new_slots_after_slot]
    have u: "populate_loop level tbl i end st = populate_loop level tbl (Suc i) end ?st"
      using True by (subst populate_loop.simps) simp
    show ?thesis
    proof (cases "pml4 (pp st) (tbl @ [i]) = None")
      case False
      with ih populate_slot_full [OF False, of level] True show ?thesis
        unfolding u by (auto simp add: new_slots_step)
    next
      case e: True
      note ps = populate_slot_empty [OF e, of level]
      have ns: "new_slots (pml4 (pp st)) tbl i end = i # ?n"
        using True e by (simp add: new_slots_step)
      show ?thesis
      proof (cases "?n = []")
        case True
        with ih ps ns show ?thesis unfolding u by simp
      next
        case False
        have "hd ?n \<in> set ?n" "last ?n \<in> set ?n" using False by simp_all
        then have "i \<le> hd ?n" "i \<le> last ?n"
          using new_slots_bounds [of _ "pml4 (pp st)" tbl "Suc i" "end"] by fastforce+
        with ih ps ns False show ?thesis unfolding u by (simp add: min_def max_def)
      qed
    qed
  qed
qed

lemma populate_loop_nothing_new:
  "new_slots (pml4 (pp st)) tbl i end = [] \<Longrightarrow> pp (populate_loop level tbl i end st) = pp st"
proof (induction level tbl i "end" st rule: populate_loop.induct)
  case (1 level tbl i "end" st)
  show ?case
  proof (cases "i \<le> end")
    case False
    then show ?thesis by (subst populate_loop.simps) simp
  next
    case True
    with "1.prems" have f: "pml4 (pp st) (tbl @ [i]) \<noteq> None"
      and n: "new_slots (pml4 (pp st)) tbl (Suc i) end = []"
      by (auto simp add: new_slots_step split: if_splits)
    from "1.IH" [OF True] n populate_slot_full [OF f, of level] True show ?thesis
      by (subst populate_loop.simps) (simp add: new_slots_after_slot)
  qed
qed

lemma new_slots_hd_last:
  assumes "new_slots s tbl start end \<noteq> []"
  shows "start \<le> hd (new_slots s tbl start end)"
    and "hd (new_slots s tbl start end) \<le> last (new_slots s tbl start end)"
    and "last (new_slots s tbl start end) \<le> end"
proof -
  let ?n = "new_slots s tbl start end"
  have "hd ?n \<in> set ?n" "last ?n \<in> set ?n" using assms by simp_all
  then show "start \<le> hd ?n" "last ?n \<le> end"
    using new_slots_bounds [of _ s tbl start "end"] by fastforce+
  have "sorted ?n" unfolding new_slots_def by (rule sorted_wrt_filter) (rule sorted_upt)
  then show "hd ?n \<le> last ?n" using assms by (cases ?n) auto
qed

text \<open>
  Claim C3, as the code has it. A call of \<^verbatim>\<open>populate_ppgtt_table\<close> on an existing
  table, for a range inside the 512 slots, emits no record when no slot of the range is
  empty, and the tables are then unchanged. Otherwise it emits exactly one memory-write
  record: it starts at the lowest newly populated slot, ends at the highest, and carries
  the entry of every slot in between, so a slot populated earlier that lies between two
  new ones is written again (with the entry it already had). No slot that was populated
  before the call changes.
\<close>

theorem populate_dirty_range:
  assumes "phys_addr (pml4 p) tbl = Some pa" and "end < 512"
  shows "\<exists>p'. populate_ppgtt_table p tbl start end level =
           Some (p',
             if new_slots (pml4 p) tbl start end = [] then []
             else mem_trace_memory_write_header_out
                    (pa + of_nat (hd (new_slots (pml4 p) tbl start end)) * 8)
                    (ucast (of_nat (last (new_slots (pml4 p) tbl start end)
                                     - hd (new_slots (pml4 p) tbl start end) + 1) * 8 :: 64 word))
                    AUB_MEM_TRACE_MEMORY_ADDRESS_SPACE_PHYSICAL @
                  concat (map (\<lambda>i. le64 (3 OR slot_value (pml4 p' (tbl @ [i]))))
                            [hd (new_slots (pml4 p) tbl start end) ..<
                             last (new_slots (pml4 p) tbl start end) + 1])) \<and>
         (\<forall>k. pml4 p k \<noteq> None \<longrightarrow> pml4 p' k = pml4 p k) \<and>
         (new_slots (pml4 p) tbl start end = [] \<longrightarrow> p' = p)"
proof -
  let ?init = "\<lparr>pp = p, entries = (\<lambda>i. 0), dirty_start = 512, dirty_end = 0\<rparr>"
  let ?st = "populate_loop level tbl start end ?init"
  let ?n = "new_slots (pml4 p) tbl start end"
  have ex: "\<forall>k. pml4 p k \<noteq> None \<longrightarrow> pml4 (pp ?st) k = pml4 p k"
    using populate_loop_existing [of ?init _ level tbl start "end"] by simp
  show ?thesis
  proof (cases "?n = []")
    case True
    have "dirty_start ?st = 512" "dirty_end ?st = 0"
      using populate_loop_dirty [of level tbl start "end" ?init] True by simp_all
    moreover have "pp ?st = p"
      using populate_loop_nothing_new [of ?init tbl start "end" level] True by simp
    ultimately show ?thesis using True assms(1)
      by (simp add: populate_ppgtt_table_def Let_def)
  next
    case False
    note b = new_slots_hd_last [OF False]
    have ds: "dirty_start ?st = hd ?n" and de: "dirty_end ?st = last ?n"
      using populate_loop_dirty [of level tbl start "end" ?init] False b assms(2)
      by (simp_all add: min_def)
    have en: "map (\<lambda>i. le64 (entries ?st i)) [hd ?n ..< Suc (last ?n)]
                = map (\<lambda>i. le64 (3 OR slot_value (pml4 (pp ?st) (tbl @ [i])))) [hd ?n ..< Suc (last ?n)]"
    proof (rule map_cong [OF refl])
      fix i assume "i \<in> set [hd ?n ..< Suc (last ?n)]"
      then have "hd ?n \<le> i" "i \<le> last ?n" by auto
      then have "start \<le> i" "i \<le> end" using b by linarith+
      then show "le64 (entries ?st i) = le64 (3 OR slot_value (pml4 (pp ?st) (tbl @ [i])))"
        by (simp add: populate_loop_entries_inside)
    qed
    show ?thesis
      using False assms(1) b(2) ex
      by (simp add: populate_ppgtt_table_def Let_def ds de en slot_value_Some del: upt_Suc)
  qed
qed

theorem populate_dirty_range_witness:
  "\<exists>p'. populate_ppgtt_table example_ppgtt [] 0 2 4 =
           Some (p',
             mem_trace_memory_write_header_out (PML4_PHYS_ADDR + 0) 24
                    AUB_MEM_TRACE_MEMORY_ADDRESS_SPACE_PHYSICAL @
             le64 (3 OR slot_value (pml4 p' [0])) @ le64 (3 OR slot_value (pml4 p' [1])) @
             le64 (3 OR slot_value (pml4 p' [2]))) \<and>
         pml4 p' [1] = Some 0x5000"
proof -
  have 1: "phys_addr (pml4 example_ppgtt) [] = Some PML4_PHYS_ADDR"
    by (simp add: phys_addr_def)
  have 2: "(2::nat) < 512" by simp
  have n: "new_slots (pml4 example_ppgtt) [] 0 2 = [0, 2]"
    by (simp add: new_slots_def example_ppgtt_def upt_conv_Cons del: upt_Suc)
  have u: "[0 ..< 3] = [0, 1, 2 :: nat]" by (simp add: upt_rec)
  have e: "pml4 example_ppgtt [1] \<noteq> None" by (simp add: example_ppgtt_def)
  from populate_dirty_range [OF 1 2, of 0 4] e show ?thesis
    unfolding n by (auto simp add: u example_ppgtt_def)
qed

text \<open>
  The claim as stated fails. After \<^verbatim>\<open>aub_map_ppgtt\<close> has mapped the two pages at
  \<open>0x1000\<close>, slots 1 and 2 of the level-1 table are populated. The populate call that a
  later mapping of the pages 0 to 3 makes on that table newly populates slots 0 and 3, and
  its one record carries four entries: those of slots 1 and 2 are written again.
\<close>

theorem populate_rewrites_slots_between:
  "(case aub_map_ppgtt ppgtt0 0x1000 0x2000 of
      None \<Rightarrow> False
    | Some (p1, out1) \<Rightarrow>
        new_slots (pml4 p1) [0, 0, 0] 0 3 = [0, 3] \<and>
        pml4 p1 [0, 0, 0, 1] = Some 0x21000 \<and> pml4 p1 [0, 0, 0, 2] = Some 0x22000 \<and>
        (case populate_ppgtt_table p1 [0, 0, 0] 0 3 1 of
           None \<Rightarrow> False
         | Some (p2, out2) \<Rightarrow>
             out2 = mem_trace_memory_write_header_out 0x20000 32
                      AUB_MEM_TRACE_MEMORY_ADDRESS_SPACE_PHYSICAL @
                    le64 0x23003 @ le64 0x21003 @ le64 0x22003 @ le64 0x24003))"
  by (simp add: ppgtt_eval new_slots_def upt_conv_Cons del: upt_Suc)


section \<open>The decoder's tables and the execute event\<close>

lemma get_ggtt_batch_bo_tables:
  "get_ggtt_batch_bo d a = (b, d1) \<Longrightarrow>
   ggtt d1 = ggtt d \<and> mem d1 = mem d \<and> outfile d1 = outfile d \<and>
   render_elsp d1 = render_elsp d \<and> render_elsp_index d1 = render_elsp_index d \<and>
   blitter_elsp d1 = blitter_elsp d \<and> blitter_elsp_index d1 = blitter_elsp_index d"
  by (auto simp add: get_ggtt_batch_bo_def add_gtt_bo_map_def Let_def
      split: option.splits list.splits)

lemma reg_write_collect_tables:
  "reg_write_collect offset v d = (d1, r) \<Longrightarrow>
   ggtt d1 = ggtt d \<and> mem d1 = mem d \<and> outfile d1 = outfile d \<and> maps d1 = maps d"
  by (auto simp add: reg_write_collect_def Let_def split: if_splits)

lemma execlist_submit_result:
  assumes "execlist_submit cd d = Inr d'"
  shows "maps d' = [] \<and> ggtt d' = ggtt d \<and> mem d' = mem d \<and>
         render_elsp d' = render_elsp d \<and> render_elsp_index d' = render_elsp_index d \<and>
         blitter_elsp d' = blitter_elsp d \<and> blitter_elsp_index d' = blitter_elsp_index d \<and>
         (\<exists>b head tail start bytes.
            b = fst (get_ggtt_batch_bo d (ucast (ucast (cd AND 0xfffff000) :: 32 word))) \<and>
            view_at b (ucast (ucast (cd AND 0xfffff000) :: 32 word) - addr b + 4096) 5 = Some head \<and>
            view_at b (ucast (ucast (cd AND 0xfffff000) :: 32 word) - addr b + 4096) 7 = Some tail \<and>
            view_at b (ucast (ucast (cd AND 0xfffff000) :: 32 word) - addr b + 4096) 9 = Some start \<and>
            outfile d' = outfile d @ [Gen_print_batch bytes (tail - head)] \<and>
            length bytes \<le> unat (tail - head))"
proof -
  let ?a = "ucast (ucast (cd AND 0xfffff000) :: 32 word) :: 64 word"
  obtain b d1 where g1: "get_ggtt_batch_bo d ?a = (b, d1)" by (cases "get_ggtt_batch_bo d ?a")
  let ?ctx = "?a - addr b + 4096"
  from assms g1 obtain head tail start c49 c51 where
    r: "view_at b ?ctx 5 = Some head" "view_at b ?ctx 7 = Some tail"
       "view_at b ?ctx 9 = Some start" "view_at b ?ctx 49 = Some c49"
       "view_at b ?ctx 51 = Some c51"
    by (auto simp add: execlist_submit_def Let_def split: option.splits)
  obtain rb d2 where g2: "get_ggtt_batch_bo d1 (ucast start) = (rb, d2)"
    by (cases "get_ggtt_batch_bo d1 (ucast start)")
  from assms g1 r g2 obtain v where
    v: "map_dbo rb = Some v"
       "d' = clear_bo_maps (gen_print_batch v (unat (ucast start - addr rb)) (tail - head) d2)"
    by (auto simp add: execlist_submit_def Let_def split: option.splits if_splits)
  have t: "ggtt d2 = ggtt d" "mem d2 = mem d" "outfile d2 = outfile d"
    "render_elsp d2 = render_elsp d" "render_elsp_index d2 = render_elsp_index d"
    "blitter_elsp d2 = blitter_elsp d" "blitter_elsp_index d2 = blitter_elsp_index d"
    using get_ggtt_batch_bo_tables [OF g1] get_ggtt_batch_bo_tables [OF g2] by simp_all
  have "length (batch_bytes v (unat (ucast start - addr rb)) (tail - head)) \<le> unat (tail - head)"
    by (simp add: batch_bytes_def view_bytes_def)
  with v t r g1 show ?thesis
    by (auto simp add: clear_bo_maps_def gen_print_batch_def)
qed

lemmas decoder_eval =
  example_decoder_def decoder0_def example_context_def example_ring_def
  handle_memtrace_reg_write_def rd_def reg_write_collect_def execlist_submit_def
  get_ggtt_batch_bo_def search_phys_mem_def add_gtt_bo_map_def clear_bo_maps_def
  gen_print_batch_def batch_bytes_def view_at_def view32_def view_bytes_def Let_def

lemma example_control_write:
  "handle_memtrace_reg_write [0xF7030005, 0x2550, 0, 0, 0, 1] 0 (example_decoder i) =
     Inr ((example_decoder i)\<lparr>outfile := [Gen_print_batch [0, 1, 2, 3, 4, 5, 6, 7] 8]\<rparr>)"
  by (simp add: decoder_eval)


section \<open>What an execute event clears (claim C5)\<close>

lemma handle_trace_block_result:
  assumes "handle_trace_block ws c d = Inr d'" "outfile d' \<noteq> outfile d"
  shows "maps d' = [] \<and> ggtt d' = ggtt d \<and> mem d' = mem d"
  using assms
  by (auto simp add: handle_trace_block_def Let_def clear_bo_maps_def gen_print_batch_def
      add_gtt_bo_map_def split: option.splits if_splits)

lemma handle_memtrace_reg_write_result:
  assumes "handle_memtrace_reg_write ws c d = Inr d'" "outfile d' \<noteq> outfile d"
  shows "maps d' = [] \<and> ggtt d' = ggtt d \<and> mem d' = mem d"
proof -
  from assms(1) obtain offset v where p: "rd ws c 1 = Some offset" "rd ws c 5 = Some v"
    by (auto simp add: handle_memtrace_reg_write_def split: option.splits)
  obtain d1 r where c: "reg_write_collect offset v d = (d1, r)"
    by (cases "reg_write_collect offset v d")
  show ?thesis
  proof (cases r)
    case None
    with assms p c reg_write_collect_tables [OF c] show ?thesis
      by (simp add: handle_memtrace_reg_write_def)
  next
    case (Some cd)
    with assms(1) p c have "execlist_submit cd d1 = Inr d'"
      by (simp add: handle_memtrace_reg_write_def)
    from execlist_submit_result [OF this] reg_write_collect_tables [OF c] show ?thesis by simp
  qed
qed

text \<open>
  Claim C5, as the code has it. When an execute or command event has been processed (the
  disassembler has been called), the list \<^verbatim>\<open>maps\<close> of live buffer mappings is empty;
  the GGTT-entry table and the physical-page table are what they were before the record:
  \<^verbatim>\<open>clear_bo_maps\<close> releases the mappings only.
\<close>

theorem execute_event_clears_bo_maps_only:
  "(handle_memtrace_reg_write ws c d = Inr d' \<and> outfile d' \<noteq> outfile d \<longrightarrow>
      maps d' = [] \<and> ggtt d' = ggtt d \<and> mem d' = mem d) \<and>
   (handle_trace_block ws c d = Inr d' \<and> outfile d' \<noteq> outfile d \<longrightarrow>
      maps d' = [] \<and> ggtt d' = ggtt d \<and> mem d' = mem d)"
  using handle_memtrace_reg_write_result handle_trace_block_result by blast

theorem execute_event_clears_bo_maps_only_witness:
  "maps ((example_decoder 0)\<lparr>outfile := [Gen_print_batch [0, 1, 2, 3, 4, 5, 6, 7] 8]\<rparr>) = [] \<and>
   ggtt ((example_decoder 0)\<lparr>outfile := [Gen_print_batch [0, 1, 2, 3, 4, 5, 6, 7] 8]\<rparr>)
     = ggtt (example_decoder 0)"
proof -
  let ?d' = "(example_decoder 0)\<lparr>outfile := [Gen_print_batch [0, 1, 2, 3, 4, 5, 6, 7] 8]\<rparr>"
  have "outfile ?d' \<noteq> outfile (example_decoder 0)"
    by (simp add: example_decoder_def decoder0_def)
  with execute_event_clears_bo_maps_only
         [of "[0xF7030005, 0x2550, 0, 0, 0, 1]" 0 "example_decoder 0" ?d']
       example_control_write [of 0]
  show ?thesis by blast
qed

text \<open>
  The claim as stated fails: after the execute event of the example both tables still
  hold every entry they held before it.
\<close>

theorem execute_event_keeps_tables:
  "(case handle_memtrace_reg_write [0xF7030005, 0x2550, 0, 0, 0, 1] 0 (example_decoder 0) of
      Inl e \<Rightarrow> False
    | Inr d' \<Rightarrow>
        outfile d' = [Gen_print_batch [0, 1, 2, 3, 4, 5, 6, 7] 8] \<and>
        ggtt d' = [(0, 0x1001), (0x1000, 0x2001), (0x2000, 0x3001)] \<and>
        map fst (mem d') = [0x1000, 0x2000, 0x3000])"
  by (simp add: example_control_write) (simp add: example_decoder_def decoder0_def)


section \<open>Buffers of size 0 in a submission (claim C6)\<close>

lemma assign_loop_append:
  "assign_loop env (xs @ ys) s =
     (case assign_loop env xs s of
        Inl e \<Rightarrow> Inl e
      | Inr (Return st) \<Rightarrow> Inr (Return st)
      | Inr (Next s') \<Rightarrow> assign_loop env ys s')"
proof (induction xs arbitrary: s)
  case Nil
  then show ?case by simp
next
  case (Cons x xs)
  show ?case
  proof (cases "assign_buffer env x (fst s) (snd s)")
    case (Inl e)
    then show ?thesis by simp
  next
    case (Inr r)
    then show ?thesis by (cases r) (simp_all add: Cons.IH)
  qed
qed

lemma assign_buffer_zero_size:
  assumes "unat (handle obj) < MAX_BO_COUNT" "size_bo (bos st (handle obj)) = 0"
  shows "assign_buffer env obj st offset =
           Inr (Return (if verbose st \<noteq> 0
                        then st\<lparr>stdout := stdout st @ [Msg_bo_invalid (handle obj)]\<rparr>
                        else st))"
  using assms by (simp add: assign_buffer_def get_bo_def)





section \<open>Unknown records (claim C7)\<close>

lemma dispatch_unknown:
  "h AND 0xffff0000 \<notin> set handled_kinds \<Longrightarrow>
   dispatch env ws c h d = Inr (d\<lparr>outfile := outfile d @ [Unknown_block h]\<rparr>)"
  by (simp add: dispatch_def handled_kinds_def Let_def)

lemma decode_unknown_opcode:
  assumes "cursor < length ws"
    and "OPCODE (ws ! cursor) \<noteq> OPCODE_AUB" "OPCODE (ws ! cursor) \<noteq> OPCODE_NEW_AUB"
  shows "decode_file env ws cursor d =
           Inr (d\<lparr>outfile := outfile d @
                   [Unknown_opcode (OPCODE (ws ! cursor)) cursor (length ws)]\<rparr>)"
  using assms by (subst decode_file.simps) (simp add: aub_file_decode_batch_def Let_def)

lemma decode_unknown_kind:
  assumes "cursor < length ws"
    and "OPCODE (ws ! cursor) = OPCODE_AUB \<or> OPCODE (ws ! cursor) = OPCODE_NEW_AUB"
    and "ws ! cursor AND 0xffff0000 \<notin> set handled_kinds"
    and "cursor + unat (ws ! cursor AND 0xffff) +
           (if OPCODE (ws ! cursor) = OPCODE_AUB then 2 else 1) \<le> length ws"
  shows "decode_file env ws cursor d =
           decode_file env ws
             (cursor + unat (ws ! cursor AND 0xffff) +
                (if OPCODE (ws ! cursor) = OPCODE_AUB then 2 else 1))
             (d\<lparr>outfile := outfile d @ [Unknown_block (ws ! cursor)]\<rparr>)"
proof -
  have nb: "ws ! cursor AND 0xffff0000 \<noteq> MAKE_HEADER TYPE_AUB OPCODE_AUB SUBOPCODE_BLOCK"
    using assms(3) by (auto simp add: handled_kinds_def)
  have "aub_file_decode_batch env ws cursor d =
          Inr (AUB_ITEM_DECODE_OK (d\<lparr>outfile := outfile d @ [Unknown_block (ws ! cursor)]\<rparr>)
                 (cursor + unat (ws ! cursor AND 0xffff) +
                    (if OPCODE (ws ! cursor) = OPCODE_AUB then 2 else 1)))"
    using assms(1,2,4) nb dispatch_unknown [OF assms(3), of env ws cursor d]
    by (auto simp add: aub_file_decode_batch_def Let_def)
  then show ?thesis using assms(1) by (subst decode_file.simps) simp
qed

text \<open>
  Claim C7. At a record whose top-level opcode is neither \<^verbatim>\<open>OPCODE_AUB\<close> nor
  \<^verbatim>\<open>OPCODE_NEW_AUB\<close> the decoder prints the opcode with the position in the file and
  decoding stops there, the state reached so far being the result. At a record with a
  known opcode whose kind has no \<^verbatim>\<open>case\<close> (and which lies inside the file) the decoder
  prints a diagnostic, moves the cursor by the length in the low 16 bits of the first word
  plus the bias of the opcode, and goes on exactly as it would from the next record.
\<close>

theorem unknown_records:
  assumes "cursor < length ws"
  shows "(OPCODE (ws ! cursor) \<noteq> OPCODE_AUB \<and> OPCODE (ws ! cursor) \<noteq> OPCODE_NEW_AUB \<longrightarrow>
            decode_file env ws cursor d =
              Inr (d\<lparr>outfile := outfile d @
                      [Unknown_opcode (OPCODE (ws ! cursor)) cursor (length ws)]\<rparr>)) \<and>
         ((OPCODE (ws ! cursor) = OPCODE_AUB \<or> OPCODE (ws ! cursor) = OPCODE_NEW_AUB) \<and>
          ws ! cursor AND 0xffff0000 \<notin> set handled_kinds \<and>
          cursor + unat (ws ! cursor AND 0xffff) +
            (if OPCODE (ws ! cursor) = OPCODE_AUB then 2 else 1) \<le> length ws \<longrightarrow>
            decode_file env ws cursor d =
              decode_file env ws
                (cursor + unat (ws ! cursor AND 0xffff) +
                   (if OPCODE (ws ! cursor) = OPCODE_AUB then 2 else 1))
                (d\<lparr>outfile := outfile d @ [Unknown_block (ws ! cursor)]\<rparr>))"
  using decode_unknown_opcode [OF assms] decode_unknown_kind [OF assms] by blast

lemmas header_eval =
  MAKE_HEADER_def TYPE_AUB_def OPCODE_AUB_def OPCODE_NEW_AUB_def SUBOPCODE_HEADER_def
  SUBOPCODE_BLOCK_def SUBOPCODE_BMP_def SUBOPCODE_VERSION_def SUBOPCODE_REG_WRITE_def
  SUBOPCODE_MEM_WRITE_def SUBOPCODE_MEM_POLL_def SUBOPCODE_REG_POLL_def OPCODE_def
  handled_kinds_def

theorem unknown_records_witness:
  "decode_file example_decoder_env [0xF77F0001, 0, 0xE0000000] 0 decoder0 =
     Inr (decoder0\<lparr>outfile := [Unknown_block 0xF77F0001, Unknown_opcode 0 2 3]\<rparr>)"
proof -
  let ?ws = "[0xF77F0001, 0, 0xE0000000] :: 32 word list"
  let ?d1 = "decoder0\<lparr>outfile := outfile decoder0 @ [Unknown_block (?ws ! 0)]\<rparr>"
  have 0: "(0::nat) < length ?ws" by simp
  have 2: "(2::nat) < length ?ws" by simp
  have a: "(OPCODE (?ws ! 0) = OPCODE_AUB \<or> OPCODE (?ws ! 0) = OPCODE_NEW_AUB) \<and>
          ?ws ! 0 AND 0xffff0000 \<notin> set handled_kinds \<and>
          0 + unat (?ws ! 0 AND 0xffff) +
            (if OPCODE (?ws ! 0) = OPCODE_AUB then 2 else 1) \<le> length ?ws"
    by (simp add: header_eval)
  have b: "OPCODE (?ws ! 2) \<noteq> OPCODE_AUB \<and> OPCODE (?ws ! 2) \<noteq> OPCODE_NEW_AUB"
    by (simp add: header_eval)
  have n: "0 + unat (?ws ! 0 AND 0xffff) + (if OPCODE (?ws ! 0) = OPCODE_AUB then 2 else 1) = 2"
    by (simp add: header_eval)
  from unknown_records [OF 0, of example_decoder_env decoder0] a
  have "decode_file example_decoder_env ?ws 0 decoder0 = decode_file example_decoder_env ?ws 2 ?d1"
    unfolding n by blast
  also from unknown_records [OF 2, of example_decoder_env ?d1] b
  have "decode_file example_decoder_env ?ws 2 ?d1 =
          Inr (?d1\<lparr>outfile := outfile ?d1 @ [Unknown_opcode (OPCODE (?ws ! 2)) 2 (length ?ws)]\<rparr>)"
    by blast
  finally show ?thesis by (simp add: decoder0_def header_eval)
qed


section \<open>Chunking of memory writes\<close>

text \<open>
  The tables of the paged example are those the emulator builds from the empty tables by
  mapping \<open>[0x1000, 0x3000)\<close> and then \<open>[0, 0x4000)\<close>.
\<close>

lemma example_paged_tables_reached:
  "(case aub_map_ppgtt ppgtt0 0x1000 0x2000 of
      None \<Rightarrow> None
    | Some (p, out) \<Rightarrow> map_option (pml4 \<circ> fst) (aub_map_ppgtt p 0 0x4000))
   = Some example_paged_tables"
  by (simp add: ppgtt_eval example_paged_tables_def) (rule ext, simp)

lemma chunk_limit_pos: "0 < chunk_limit aub" "chunk_limit aub \<le> 32768"
  by (simp_all add: chunk_limit_def)

lemma chunk_below_count:
  "k < chunk_count aub size' \<longleftrightarrow> k * chunk_limit aub < unat size'"
proof -
  let ?L = "chunk_limit aub"
  have L: "0 < ?L" by (rule chunk_limit_pos)
  have "k < (unat size' + ?L - 1) div ?L \<longleftrightarrow> k * ?L < unat size'"
  proof
    assume "k < (unat size' + ?L - 1) div ?L"
    then have "Suc k \<le> (unat size' + ?L - 1) div ?L" by simp
    then have "Suc k * ?L \<le> unat size' + ?L - 1" using L by (simp add: less_eq_div_iff_mult_less_eq)
    then show "k * ?L < unat size'" using L by simp
  next
    assume "k * ?L < unat size'"
    then have "Suc k * ?L \<le> unat size' + ?L - 1" using L by simp
    then have "Suc k \<le> (unat size' + ?L - 1) div ?L" using L by (simp add: less_eq_div_iff_mult_less_eq)
    then show "k < (unat size' + ?L - 1) div ?L" by simp
  qed
  then show ?thesis by (simp add: chunk_count_def)
qed

lemma unat_min_word: "unat (min a b :: 'a::len word) = min (unat a) (unat b)"
  by (simp add: min_def word_le_nat_alt)

lemma trace_block_size_unat:
  assumes "offset < size'"
  shows "unat (trace_block_size aub size' offset) = min (chunk_limit aub) (unat size' - unat offset)"
proof -
  have d: "unat (size' - offset) = unat size' - unat offset"
    using assms by (simp add: unat_sub word_less_nat_alt word_le_nat_alt)
  show ?thesis
    by (auto simp add: trace_block_size_def Let_def chunk_limit_def unat_min_word d)
qed

lemma chunk_offset_unat:
  assumes "k * chunk_limit aub < unat size'"
  shows "unat (chunk_offset aub k) = k * chunk_limit aub" "chunk_offset aub k < size'"
proof -
  have "unat size' < 2 ^ LENGTH(32)" by (rule unsigned_less)
  with assms have "k * chunk_limit aub < 2 ^ LENGTH(32)" by simp
  then show u: "unat (chunk_offset aub k) = k * chunk_limit aub"
    unfolding chunk_offset_def by (simp only: unat_of_nat mod_less)
  show "chunk_offset aub k < size'" using assms u by (simp add: word_less_nat_alt)
qed

lemma chunk_size_eq:
  assumes "k * chunk_limit aub < unat size'"
  shows "trace_block_size aub size' (chunk_offset aub k) = chunk_size aub size' k"
proof -
  have "unat (trace_block_size aub size' (chunk_offset aub k))
          = min (chunk_limit aub) (unat size' - k * chunk_limit aub)"
    using chunk_offset_unat [OF assms] by (simp add: trace_block_size_unat)
  then have "of_nat (unat (trace_block_size aub size' (chunk_offset aub k)))
          = (of_nat (min (chunk_limit aub) (unat size' - k * chunk_limit aub)) :: 32 word)"
    by simp
  then show ?thesis by (simp add: chunk_size_def)
qed

lemma chunk_size_unat:
  assumes "k * chunk_limit aub < unat size'"
  shows "unat (chunk_size aub size' k) = min (chunk_limit aub) (unat size' - k * chunk_limit aub)"
  using chunk_offset_unat [OF assms] chunk_size_eq [OF assms, symmetric]
  by (simp add: trace_block_size_unat)

lemma trace_block_loop_chunks:
  "k \<le> chunk_count aub size' \<Longrightarrow>
   aub_write_trace_block_loop aub type virtual size' gtt_offset
       (of_nat (min (k * chunk_limit aub) (unat size')))
     = map_option concat (those (map (\<lambda>k. trace_block_record aub type virtual gtt_offset
           (chunk_offset aub k) (chunk_size aub size' k)) [k ..< chunk_count aub size']))"
proof (induction "chunk_count aub size' - k" arbitrary: k)
  case 0
  then have "k = chunk_count aub size'" by simp
  then have "\<not> k * chunk_limit aub < unat size'" using chunk_below_count [of k aub size'] by simp
  then have "min (k * chunk_limit aub) (unat size') = unat size'" by simp
  then show ?case using \<open>k = chunk_count aub size'\<close>
    by (simp add: aub_write_trace_block_loop.simps [of _ _ _ _ _ size'])
next
  case (Suc m)
  let ?L = "chunk_limit aub"
  from Suc.hyps(2) have lt: "k < chunk_count aub size'" by simp
  then have kl: "k * ?L < unat size'" by (simp add: chunk_below_count)
  then have off: "(of_nat (min (k * ?L) (unat size')) :: 32 word) = chunk_offset aub k"
    by (simp add: chunk_offset_def min_def)
  note u = chunk_offset_unat [OF kl]
  have step: "chunk_offset aub k + chunk_size aub size' k
                = of_nat (min (Suc k * ?L) (unat size'))"
  proof -
    have "unat (chunk_offset aub k) + unat (chunk_size aub size' k) = min (Suc k * ?L) (unat size')"
      using kl u(1) by (auto simp add: chunk_size_unat min_def)
    then have "(of_nat (unat (chunk_offset aub k) + unat (chunk_size aub size' k)) :: 32 word)
                 = of_nat (min (Suc k * ?L) (unat size'))" by simp
    then show ?thesis by simp
  qed
  have ih: "aub_write_trace_block_loop aub type virtual size' gtt_offset
       (of_nat (min (Suc k * ?L) (unat size')))
     = map_option concat (those (map (\<lambda>k. trace_block_record aub type virtual gtt_offset
           (chunk_offset aub k) (chunk_size aub size' k)) [Suc k ..< chunk_count aub size']))"
    using Suc.hyps(2) lt by (intro Suc.hyps(1)) simp_all
  have "aub_write_trace_block_loop aub type virtual size' gtt_offset (chunk_offset aub k)
     = (case trace_block_record aub type virtual gtt_offset (chunk_offset aub k)
                   (chunk_size aub size' k) of
              None \<Rightarrow> None
            | Some r \<Rightarrow>
                (case aub_write_trace_block_loop aub type virtual size' gtt_offset
                        (of_nat (min (Suc k * ?L) (unat size'))) of
                   None \<Rightarrow> None
                 | Some rest \<Rightarrow> Some (r @ rest)))"
    using u(2) by (subst aub_write_trace_block_loop.simps) (simp only: chunk_size_eq [OF kl] step if_True)
  also have "\<dots> = map_option concat (those (map (\<lambda>k. trace_block_record aub type virtual gtt_offset
           (chunk_offset aub k) (chunk_size aub size' k)) [k ..< chunk_count aub size']))"
    unfolding ih upt_conv_Cons [OF lt]
    by (simp split: option.splits)
  finally show ?case unfolding off .
qed

lemma pad_to_dword: "(unat (bs :: 32 word) + unat (- bs AND 3)) mod 4 = 0"
proof -
  have "- bs AND 3 = take_bit 2 (- bs)" 
    using take_bit_eq_mask [of 2 "- bs"] by (simp add: mask_eq_exp_minus_1)
  then have "uint (- bs AND 3) = take_bit 2 (uint (- bs))"
    by (simp only: unsigned_take_bit_eq)
  then have "uint (- bs AND 3) = (- uint bs mod 2 ^ 32) mod 4"
    by (simp add: take_bit_eq_mod uint_word_ariths)
  also have "\<dots> = (- uint bs) mod 4"
    by (rule mod_mod_cancel) simp
  finally have "(uint bs + uint (- bs AND 3)) mod 4 = 0" by presburger
  then have "int ((unat bs + unat (- bs AND 3)) mod 4) = 0"
    by (simp add: zmod_int)
  then show ?thesis by simp
qed

lemma trace_block_payload_length:
  assumes "\<forall>v. virtual = Some v \<longrightarrow> unat offset + unat block_size \<le> length v"
  shows "length (trace_block_payload virtual offset block_size)
           = unat block_size + unat (- block_size AND 3)"
  using assms by (cases virtual) (simp_all add: trace_block_payload_def)

lemma pad_less_dword: "unat (- bs AND 3 :: 32 word) < 4"
proof -
  have "- bs AND 3 \<le> 3" by (rule word_and_le1)
  then show ?thesis by (simp add: word_le_nat_alt)
qed

lemma chunk_offset_ucast:
  assumes "k * chunk_limit aub < unat (size' :: 32 word)"
  shows "(ucast (chunk_offset aub k) :: 64 word) = of_nat (k * chunk_limit aub)"
proof -
  have "(ucast (chunk_offset aub k) :: 64 word) = of_nat (unat (chunk_offset aub k))"
    by simp
  then show ?thesis by (simp only: chunk_offset_unat(1) [OF assms])
qed

lemma legacy_address_dword:
  assumes "k * (8 * 4096) < unat (size' :: 32 word)"
    and "unat (gtt_offset :: 64 word) + unat size' \<le> 2 ^ 32"
  shows "unat (ucast (gtt_offset + of_nat (k * (8 * 4096))) :: 32 word)
           = unat gtt_offset + k * (8 * 4096)"
proof -
  let ?d = "k * (8 * 4096)"
  from assms have lt: "unat gtt_offset + ?d < 2 ^ 32" by linarith
  then have d64: "?d < 2 ^ LENGTH(64)" by simp
  have "unat (of_nat ?d :: 64 word) = ?d"
    using d64 by (simp only: unat_of_nat mod_less)
  moreover have "unat gtt_offset + ?d < 2 ^ LENGTH(64)" using lt by simp
  ultimately have s: "unat (gtt_offset + of_nat ?d) = unat gtt_offset + ?d"
    using unat_add_lem [of gtt_offset "of_nat ?d"] by simp
  have "unat (ucast (gtt_offset + of_nat ?d) :: 32 word)
          = unat (of_nat (unat (gtt_offset + of_nat ?d)) :: 32 word)"
    by simp
  also have "\<dots> = unat (gtt_offset + of_nat ?d) mod 2 ^ LENGTH(32)"
    by (simp only: unat_of_nat)
  also have "\<dots> = unat gtt_offset + ?d" unfolding s using lt by simp
  finally show ?thesis .
qed

text \<open>
  C8 (amended). A memory write of \<open>size'\<close> bytes is emitted as \<open>\<lceil>size' / limit\<rceil>\<close> successive
  records, where the limit is eight pages in the legacy dialect and one page in the paged
  dialect. Record \<open>k\<close> covers the buffer from offset \<open>k * limit\<close>; every record but the last
  covers \<open>limit\<close> bytes, the last one at most \<open>limit\<close> and at least one byte, so that the
  offset into the buffer advances by the length emitted before. The payload of record \<open>k\<close>
  is the bytes of the buffer from offset \<open>k * limit\<close>, up to the next chunk or the end of the
  write (zero bytes in their place when the buffer pointer is null), followed by fewer
  than four zero bytes that bring it to a multiple of four bytes. In the legacy dialect
  the address dword of record \<open>k\<close> holds the low 32 bits of \<open>gtt_offset + k * limit\<close>, and
  the high 32 bits follow in a further dword where addresses are wider than 32 bits; for
  a write that ends at or below \<open>2 ^ 32\<close> the address dwords are \<open>gtt_offset + k * limit\<close>
  themselves, contiguous and increasing. In the paged dialect the header names the
  physical address that the page tables hold for the virtual address
  \<open>gtt_offset + k * limit\<close> (and the write fails where the tables hold none): the virtual
  addresses are contiguous and increasing, the target addresses in the records are
  whatever pages the tables map them to.
\<close>

theorem trace_block_chunks:
  "aub_write_trace_block aub type virtual size' gtt_offset =
     map_option concat (those (map
       (\<lambda>k. trace_block_record aub type virtual gtt_offset
              (chunk_offset aub k) (chunk_size aub size' k))
       [0 ..< chunk_count aub size'])) \<and>
   (\<forall>k < chunk_count aub size'.
      unat (chunk_offset aub k) = k * chunk_limit aub \<and>
      0 < unat (chunk_size aub size' k) \<and>
      unat (chunk_size aub size' k) \<le> chunk_limit aub \<and>
      unat (chunk_offset aub k) + unat (chunk_size aub size' k) \<le> unat size' \<and>
      (Suc k < chunk_count aub size' \<longrightarrow> unat (chunk_size aub size' k) = chunk_limit aub) \<and>
      trace_block_record aub type virtual gtt_offset (chunk_offset aub k) (chunk_size aub size' k) =
        map_option
          (\<lambda>h. h @ trace_block_payload virtual (chunk_offset aub k) (chunk_size aub size' k))
          (trace_block_header aub type gtt_offset (chunk_offset aub k) (chunk_size aub size' k)) \<and>
      trace_block_header aub type gtt_offset (chunk_offset aub k) (chunk_size aub size' k) =
        (if aub_use_execlists aub
         then map_option
                (\<lambda>a. mem_trace_memory_write_header_out a (chunk_size aub size' k)
                        AUB_MEM_TRACE_MEMORY_ADDRESS_SPACE_PHYSICAL)
                (ppgtt_lookup (aub_pml4 aub) (gtt_offset + of_nat (k * 4096)))
         else Some (
           dword_out (CMD_AUB_TRACE_HEADER_BLOCK OR
                      ((if 32 < addr_bits aub then 6 else 5) - 2)) @
           dword_out (AUB_TRACE_MEMTYPE_GTT OR type OR AUB_TRACE_OP_DATA_WRITE) @
           dword_out 0 @
           dword_out (ucast (gtt_offset + of_nat (k * (8 * 4096)))) @
           dword_out (align_u32 (chunk_size aub size' k) 4) @
           (if 32 < addr_bits aub
            then dword_out (ucast (drop_bit 32 (gtt_offset + of_nat (k * (8 * 4096)))))
            else []))) \<and>
      (\<not> aub_use_execlists aub \<and> unat gtt_offset + unat size' \<le> 2 ^ 32 \<longrightarrow>
         unat (ucast (gtt_offset + of_nat (k * (8 * 4096))) :: 32 word)
           = unat gtt_offset + k * (8 * 4096)) \<and>
      trace_block_payload virtual (chunk_offset aub k) (chunk_size aub size' k) =
        (case virtual of
           Some v \<Rightarrow> take (min (chunk_limit aub) (unat size' - k * chunk_limit aub))
                       (drop (k * chunk_limit aub) v)
         | None \<Rightarrow> replicate (min (chunk_limit aub) (unat size' - k * chunk_limit aub)) 0) @
        replicate (unat (- chunk_size aub size' k AND 3)) 0 \<and>
      ((\<forall>v. virtual = Some v \<longrightarrow> unat size' \<le> length v) \<longrightarrow>
         length (trace_block_payload virtual (chunk_offset aub k) (chunk_size aub size' k)) mod 4 = 0 \<and>
         length (trace_block_payload virtual (chunk_offset aub k) (chunk_size aub size' k))
           < unat (chunk_size aub size' k) + 4))"
proof (intro conjI allI impI)
  show "aub_write_trace_block aub type virtual size' gtt_offset =
     map_option concat (those (map
       (\<lambda>k. trace_block_record aub type virtual gtt_offset
              (chunk_offset aub k) (chunk_size aub size' k))
       [0 ..< chunk_count aub size']))"
    using trace_block_loop_chunks [of 0 aub size' type virtual gtt_offset]
    by (simp add: aub_write_trace_block_def)
next
  fix k assume "k < chunk_count aub size'"
  then have kl: "k * chunk_limit aub < unat size'" by (simp add: chunk_below_count)
  note off = chunk_offset_unat(1) [OF kl] and sz = chunk_size_unat [OF kl]
  show "unat (chunk_offset aub k) = k * chunk_limit aub" by (rule off)
  show "0 < unat (chunk_size aub size' k)" using kl chunk_limit_pos(1) [of aub] by (simp add: sz)
  show "unat (chunk_size aub size' k) \<le> chunk_limit aub" by (simp add: sz)
  show le: "unat (chunk_offset aub k) + unat (chunk_size aub size' k) \<le> unat size'"
    using kl by (simp add: sz off)
  show "trace_block_record aub type virtual gtt_offset (chunk_offset aub k) (chunk_size aub size' k) =
        map_option
          (\<lambda>h. h @ trace_block_payload virtual (chunk_offset aub k) (chunk_size aub size' k))
          (trace_block_header aub type gtt_offset (chunk_offset aub k) (chunk_size aub size' k))"
    by (simp add: trace_block_record_def split: option.splits)
  show "trace_block_header aub type gtt_offset (chunk_offset aub k) (chunk_size aub size' k) =
        (if aub_use_execlists aub
         then map_option
                (\<lambda>a. mem_trace_memory_write_header_out a (chunk_size aub size' k)
                        AUB_MEM_TRACE_MEMORY_ADDRESS_SPACE_PHYSICAL)
                (ppgtt_lookup (aub_pml4 aub) (gtt_offset + of_nat (k * 4096)))
         else Some (
           dword_out (CMD_AUB_TRACE_HEADER_BLOCK OR
                      ((if 32 < addr_bits aub then 6 else 5) - 2)) @
           dword_out (AUB_TRACE_MEMTYPE_GTT OR type OR AUB_TRACE_OP_DATA_WRITE) @
           dword_out 0 @
           dword_out (ucast (gtt_offset + of_nat (k * (8 * 4096)))) @
           dword_out (align_u32 (chunk_size aub size' k) 4) @
           (if 32 < addr_bits aub
            then dword_out (ucast (drop_bit 32 (gtt_offset + of_nat (k * (8 * 4096)))))
            else [])))"
    unfolding trace_block_header_def Let_def chunk_offset_ucast [OF kl]
    by (simp add: chunk_limit_def split: option.splits)
  show "trace_block_payload virtual (chunk_offset aub k) (chunk_size aub size' k) =
        (case virtual of
           Some v \<Rightarrow> take (min (chunk_limit aub) (unat size' - k * chunk_limit aub))
                       (drop (k * chunk_limit aub) v)
         | None \<Rightarrow> replicate (min (chunk_limit aub) (unat size' - k * chunk_limit aub)) 0) @
        replicate (unat (- chunk_size aub size' k AND 3)) 0"
    unfolding trace_block_payload_def off sz ..
  {
    assume "\<not> aub_use_execlists aub \<and> unat gtt_offset + unat size' \<le> 2 ^ 32"
    then have "k * (8 * 4096) < unat size'" and "unat gtt_offset + unat size' \<le> 2 ^ 32"
      using kl by (simp_all add: chunk_limit_def)
    then show "unat (ucast (gtt_offset + of_nat (k * (8 * 4096))) :: 32 word)
           = unat gtt_offset + k * (8 * 4096)"
      by (rule legacy_address_dword)
  }
  {
    assume "\<forall>v. virtual = Some v \<longrightarrow> unat size' \<le> length v"
    with le have "\<forall>v. virtual = Some v \<longrightarrow>
        unat (chunk_offset aub k) + unat (chunk_size aub size' k) \<le> length v"
      by auto
    note len = trace_block_payload_length [OF this]
    show "length (trace_block_payload virtual (chunk_offset aub k) (chunk_size aub size' k)) mod 4 = 0"
      unfolding len by (rule pad_to_dword)
    show "length (trace_block_payload virtual (chunk_offset aub k) (chunk_size aub size' k))
           < unat (chunk_size aub size' k) + 4"
      unfolding len using pad_less_dword [of "chunk_size aub size' k"] by simp
  }
  {
    assume "Suc k < chunk_count aub size'"
    then have "Suc k * chunk_limit aub < unat size'" by (simp add: chunk_below_count)
    then show "unat (chunk_size aub size' k) = chunk_limit aub" by (simp add: sz)
  }
qed

lemmas chunk_eval =
  chunk_count_def chunk_limit_def chunk_offset_def chunk_size_def aub_use_execlists_def
  trace_block_record_def trace_block_header_def trace_block_payload_def
  mem_trace_memory_write_header_out_def dword_out_def align_u32_def Let_def

text \<open>
  The legacy write of \<open>8 * 4096 + 100\<close> bytes at \<open>0x10000\<close>, from a buffer whose first eight
  pages hold the byte 1 and whose last 100 bytes hold the byte 2: two records, of the
  32768 bytes 1 at \<open>0x10000\<close> and of the 100 bytes 2 at \<open>0x18000\<close>.
\<close>

theorem trace_block_chunks_witness:
  "chunk_count (example_aub 0) (8 * 4096 + 100) = 2 \<and>
   aub_write_trace_block (example_aub 0) AUB_TRACE_TYPE_BATCH
       (Some (replicate 32768 1 @ replicate 100 2)) (8 * 4096 + 100) 0x10000 =
     Some (le32 (CMD_AUB_TRACE_HEADER_BLOCK OR 3) @
           le32 (AUB_TRACE_MEMTYPE_GTT OR AUB_TRACE_TYPE_BATCH OR AUB_TRACE_OP_DATA_WRITE) @
           le32 0 @ le32 0x10000 @ le32 32768 @ replicate 32768 1 @
           le32 (CMD_AUB_TRACE_HEADER_BLOCK OR 3) @
           le32 (AUB_TRACE_MEMTYPE_GTT OR AUB_TRACE_TYPE_BATCH OR AUB_TRACE_OP_DATA_WRITE) @
           le32 0 @ le32 0x18000 @ le32 100 @ replicate 100 2)"
  using trace_block_chunks [of "example_aub 0" AUB_TRACE_TYPE_BATCH
      "Some (replicate 32768 1 @ replicate 100 2)" "8 * 4096 + 100" "0x10000"]
  by (simp add: chunk_eval example_aub_def upt_rec)

text \<open>
  The paged write of \<open>4096 + 100\<close> bytes at the virtual address 0 through the tables of the
  example, from a buffer whose first page holds the byte 1 and whose last 100 bytes hold
  the byte 2: two records, of the 4096 bytes 1 at the physical address \<open>0x23000\<close> and of
  the 100 bytes 2 at \<open>0x21000\<close>. The second target address is not the first plus the
  length emitted; it is below the first.
\<close>

theorem paged_chunks_not_contiguous:
  "aub_write_trace_block example_paged_aub AUB_TRACE_TYPE_NOTYPE
       (Some (replicate 4096 1 @ replicate 100 2)) (4096 + 100) 0 =
     Some (mem_trace_memory_write_header_out 0x23000 4096
             AUB_MEM_TRACE_MEMORY_ADDRESS_SPACE_PHYSICAL @
           replicate 4096 1 @
           mem_trace_memory_write_header_out 0x21000 100
             AUB_MEM_TRACE_MEMORY_ADDRESS_SPACE_PHYSICAL @
           replicate 100 2)"
  using trace_block_loop_chunks [of 0 example_paged_aub "4096 + 100" AUB_TRACE_TYPE_NOTYPE
      "Some (replicate 4096 1 @ replicate 100 2)" 0]
  by (simp add: aub_write_trace_block_def chunk_eval example_paged_aub_def
      example_paged_tables_def upt_rec ppgtt_lookup_def L3_table_def L2_table_def L1_table_def
      L4_index_def L3_index_def L2_index_def L1_index_def slot_value_def)

section \<open>The execution-context tracker (claim C9)\<close>

lemmas tracker_eval =
  tracker_decoder_def tracker_context_def port_writes_def control_writes_def
  decode_file.simps aub_file_decode_batch_def dispatch_def

text \<open>
  Claim C9 (the tracker forwards exactly the slice of the ring from head to tail, the
  bytes beginning at ring start plus head, and then resets the engine's accumulator).
  The code reads head, tail and start from words 5, 7 and 9 of the context image one
  page behind the hardware status page, but the block it hands to the disassembler
  begins at ring start, not at ring start plus head; only its length is tail minus head.
  In the session of the example the context image holds head 4, tail 12 and start
  \<open>0x6000\<close>, and the slice from head to tail is the bytes 4 to 11 of the ring. After the
  fourth write to the render submit port the disassembler is handed the eight bytes 0
  to 7 of the ring, and the accumulator index of the engine is 0 again. On the
  submit-control path the same eight bytes are handed over, and the accumulator index,
  which one earlier write to the submit port had made 1, is still 1.
\<close>

theorem context_tracker_forwards_from_ring_start:
  "(case decode_file example_decoder_env port_writes 0 tracker_decoder of
      Inl e \<Rightarrow> False
    | Inr d' \<Rightarrow>
        outfile d' = [Gen_print_batch [0, 1, 2, 3, 4, 5, 6, 7] (12 - 4)] \<and>
        map (render_elsp d') [0, 1, 2, 3] = [0x11, 0x22, 0x33, 0x4000] \<and>
        render_elsp_index d' = 0) \<and>
   (case decode_file example_decoder_env control_writes 0 tracker_decoder of
      Inl e \<Rightarrow> False
    | Inr d' \<Rightarrow>
        outfile d' = [Gen_print_batch [0, 1, 2, 3, 4, 5, 6, 7] (12 - 4)] \<and>
        map (render_elsp d') [0, 1, 2, 3] = [0x11, 0, 0x33, 0x4000] \<and>
        render_elsp_index d' = 1) \<and>
   (case get_ggtt_batch_bo tracker_decoder 0x4000 of
      (pphwsp_bo, d1) \<Rightarrow>
        addr pphwsp_bo = 0x4000 \<and>
        view_at pphwsp_bo 4096 5 = Some 4 \<and>
        view_at pphwsp_bo 4096 7 = Some 12 \<and>
        view_at pphwsp_bo 4096 9 = Some 0x6000) \<and>
   (case get_ggtt_batch_bo tracker_decoder 0x6000 of
      (ring_bo, d2) \<Rightarrow>
        addr ring_bo = 0x6000 \<and>
        map_option (\<lambda>v. view_bytes v 4 (12 - 4)) (map_dbo ring_bo)
          = Some [4, 5, 6, 7, 8, 9, 10, 11])"
proof -
  have a: "(case decode_file example_decoder_env port_writes 0 tracker_decoder of
      Inl e \<Rightarrow> False
    | Inr d' \<Rightarrow>
        outfile d' = [Gen_print_batch [0, 1, 2, 3, 4, 5, 6, 7] (12 - 4)] \<and>
        map (render_elsp d') [0, 1, 2, 3] = [0x11, 0x22, 0x33, 0x4000] \<and>
        render_elsp_index d' = 0)"
    by (simp add: tracker_eval header_eval decoder_eval)
  have b: "(case decode_file example_decoder_env control_writes 0 tracker_decoder of
      Inl e \<Rightarrow> False
    | Inr d' \<Rightarrow>
        outfile d' = [Gen_print_batch [0, 1, 2, 3, 4, 5, 6, 7] (12 - 4)] \<and>
        map (render_elsp d') [0, 1, 2, 3] = [0x11, 0, 0x33, 0x4000] \<and>
        render_elsp_index d' = 1)"
    by (simp add: tracker_eval header_eval decoder_eval)
  have c: "(case get_ggtt_batch_bo tracker_decoder 0x4000 of
      (pphwsp_bo, d1) \<Rightarrow>
        addr pphwsp_bo = 0x4000 \<and>
        view_at pphwsp_bo 4096 5 = Some 4 \<and>
        view_at pphwsp_bo 4096 7 = Some 12 \<and>
        view_at pphwsp_bo 4096 9 = Some 0x6000)"
    by (simp add: tracker_eval header_eval decoder_eval)
  have d: "(case get_ggtt_batch_bo tracker_decoder 0x6000 of
      (ring_bo, d2) \<Rightarrow>
        addr ring_bo = 0x6000 \<and>
        map_option (\<lambda>v. view_bytes v 4 (12 - 4)) (map_dbo ring_bo)
          = Some [4, 5, 6, 7, 8, 9, 10, 11])"
    by (simp add: tracker_eval header_eval decoder_eval)
  from a b c d show ?thesis by (intro conjI)
qed

section \<open>Relocation values (claim C10)\<close>

lemma of_le_append:
  "(of_le (xs @ ys) :: 'a::len word) = of_le xs OR push_bit (8 * length xs) (of_le ys)"
  by (induction xs) (simp_all add: push_bit_or push_bit_push_bit or.assoc add.commute)

lemma of_le_le32_ucast: "(of_le (le32 w) :: 'a::len word) = ucast w"
proof (rule bit_word_eqI)
  fix n assume n: "n < LENGTH('a)"
  consider "n < 8" | "8 \<le> n" "n < 16" | "16 \<le> n" "n < 24" | "24 \<le> n" "n < 32" | "32 \<le> n"
    by linarith
  then show "bit (of_le (le32 w) :: 'a word) n = bit (ucast w :: 'a word) n"
  proof cases
    case 1 then show ?thesis using n by (auto simp add: le32_def bit_simps)
  next
    case 2 then show ?thesis using n by (auto simp add: le32_def bit_simps)
  next
    case 3 then show ?thesis using n by (auto simp add: le32_def bit_simps)
  next
    case 4 then show ?thesis using n by (auto simp add: le32_def bit_simps)
  next
    case 5 then show ?thesis using n
      by (auto simp add: le32_def bit_simps dest: bit_imp_le_length)
  qed
qed

lemma of_le_le32: "(of_le (le32 w) :: 32 word) = w"
  by (simp add: of_le_le32_ucast)

lemma length_le32 [simp]: "length (le32 w) = 4"
  by (simp add: le32_def)

lemma length_le64 [simp]: "length (le64 w) = 8"
  by (simp add: le64_def)

lemma of_le_le64: "(of_le (le64 w) :: 64 word) = w"
proof -
  have "(of_le (le64 w) :: 64 word) =
        ucast (ucast w :: 32 word) OR push_bit 32 (ucast (ucast (drop_bit 32 w) :: 32 word))"
    by (simp add: le64_def of_le_append of_le_le32_ucast)
  also have "\<dots> = w"
    by (rule bit_word_eqI) (auto simp add: bit_simps)
  finally show ?thesis .
qed

lemma canonical_high_bits:
  "48 \<le> n \<Longrightarrow> n < 64 \<Longrightarrow>
   bit (signed_drop_bit 16 (push_bit 16 (v :: 64 word))) n = bit v 47"
  by (auto simp add: bit_simps)

lemma canonical_low_bits:
  "take_bit 48 (signed_drop_bit 16 (push_bit 16 (v :: 64 word))) = take_bit 48 v"
  by (rule bit_word_eqI) (auto simp add: bit_simps)

lemma store_through_length [simp]: "length (store_through blk pos bs) = length blk"
  by (simp add: store_through_def)

lemma store_through_nth:
  assumes "k < length blk"
  shows "store_through blk pos bs ! k =
           (if pos \<le> k \<and> k < pos + length bs then bs ! (k - pos) else blk ! k)"
proof -
  have "store_through blk pos bs ! k = (take pos blk @ bs @ drop (pos + length bs) blk) ! k"
    unfolding store_through_def using assms by (rule nth_take)
  also have "\<dots> = (if pos \<le> k \<and> k < pos + length bs then bs ! (k - pos) else blk ! k)"
    using assms by (auto simp add: nth_append min_def)
  finally show ?thesis .
qed

lemma store_through_slot:
  assumes "pos + length bs \<le> length blk"
  shows "take (length bs) (drop pos (store_through blk pos bs)) = bs"
  using assms by (intro nth_equalityI) (simp_all add: store_through_nth)

lemma store_through_frame:
  assumes "pos + length bs \<le> q \<or> q + w \<le> pos"
  shows "take w (drop q (store_through blk pos bs)) = take w (drop q blk)"
  using assms by (intro nth_equalityI) (auto simp add: store_through_nth)

text \<open>The bytes that \<^verbatim>\<open>aub_write_reloc\<close> stores.\<close>

lemma aub_write_reloc_bytes:
  "aub_write_reloc gen blk pos v =
     store_through blk pos (if addr_bits_of_gen gen = 48
                            then le64 (signed_drop_bit 16 (push_bit 16 v))
                            else le32 (ucast v))"
  by (simp add: aub_write_reloc_def addr_bits_of_gen_def)

lemma aub_write_reloc_length [simp]: "length (aub_write_reloc gen blk pos v) = length blk"
  by (simp add: aub_write_reloc_bytes)

lemma aub_write_reloc_slot:
  assumes "pos + reloc_width gen \<le> length blk"
  shows "take (reloc_width gen) (drop pos (aub_write_reloc gen blk pos v)) =
           (if addr_bits_of_gen gen = 48 then le64 (signed_drop_bit 16 (push_bit 16 v))
            else le32 (ucast v))"
proof (cases "addr_bits_of_gen gen = 48")
  case True
  with assms store_through_slot [of pos "le64 (signed_drop_bit 16 (push_bit 16 v))" blk]
  show ?thesis by (simp add: aub_write_reloc_bytes reloc_width_def)
next
  case False
  with assms store_through_slot [of pos "le32 (ucast v)" blk]
  show ?thesis by (simp add: aub_write_reloc_bytes reloc_width_def)
qed

lemma aub_write_reloc_frame:
  assumes "pos + reloc_width gen \<le> q \<or> q + w \<le> pos"
  shows "take w (drop q (aub_write_reloc gen blk pos v)) = take w (drop q blk)"
  using assms by (auto simp add: aub_write_reloc_bytes reloc_width_def intro: store_through_frame)

lemma relocate_entry_result:
  assumes "relocate_entry gen bo_table execbuffer2 b r relocated = Inr relocated'"
  shows "relocated' = aub_write_reloc gen relocated (unat (offset_reloc r))
                        (reloc_value execbuffer2 bo_table r)"
  using assms
  by (auto simp add: relocate_entry_def reloc_target_def get_bo_def reloc_value_def
      split: if_splits sum.splits)

lemma relocate_loop_length:
  "relocate_loop gen bo_table execbuffer2 b rs relocated = Inr relocated' \<Longrightarrow>
   length relocated' = length relocated"
proof (induction rs arbitrary: relocated)
  case Nil
  then show ?case by simp
next
  case (Cons r rs)
  from Cons.prems obtain m1 where
    e: "relocate_entry gen bo_table execbuffer2 b r relocated = Inr m1" and
    l: "relocate_loop gen bo_table execbuffer2 b rs m1 = Inr relocated'"
    by (auto split: sum.splits)
  from Cons.IH [OF l] relocate_entry_result [OF e] show ?case by simp
qed

lemma relocate_loop_frame:
  "relocate_loop gen bo_table execbuffer2 b rs relocated = Inr relocated' \<Longrightarrow>
   (\<forall>r \<in> set rs. unat (offset_reloc r) + reloc_width gen \<le> q \<or> q + w \<le> unat (offset_reloc r)) \<Longrightarrow>
   take w (drop q relocated') = take w (drop q relocated)"
proof (induction rs arbitrary: relocated)
  case Nil
  then show ?case by simp
next
  case (Cons r rs)
  from Cons.prems(1) obtain m1 where
    e: "relocate_entry gen bo_table execbuffer2 b r relocated = Inr m1" and
    l: "relocate_loop gen bo_table execbuffer2 b rs m1 = Inr relocated'"
    by (auto split: sum.splits)
  have "take w (drop q relocated') = take w (drop q m1)"
    using Cons.prems(2) by (intro Cons.IH [OF l]) simp
  also have "\<dots> = take w (drop q relocated)"
    unfolding relocate_entry_result [OF e] using Cons.prems(2)
    by (intro aub_write_reloc_frame) simp
  finally show ?case .
qed

lemma relocate_loop_slot:
  "relocate_loop gen bo_table execbuffer2 b rs relocated = Inr relocated' \<Longrightarrow>
   i < length rs \<Longrightarrow>
   unat (offset_reloc (rs ! i)) + reloc_width gen \<le> length relocated \<Longrightarrow>
   (\<forall>j. i < j \<and> j < length rs \<longrightarrow> reloc_slots_apart gen (rs ! j) (rs ! i)) \<Longrightarrow>
   take (reloc_width gen) (drop (unat (offset_reloc (rs ! i))) relocated') =
     (if addr_bits_of_gen gen = 48
      then le64 (signed_drop_bit 16 (push_bit 16 (reloc_value execbuffer2 bo_table (rs ! i))))
      else le32 (ucast (reloc_value execbuffer2 bo_table (rs ! i))))"
proof (induction rs arbitrary: relocated i)
  case Nil
  then show ?case by simp
next
  case (Cons r rs)
  from Cons.prems(1) obtain m1 where
    e: "relocate_entry gen bo_table execbuffer2 b r relocated = Inr m1" and
    l: "relocate_loop gen bo_table execbuffer2 b rs m1 = Inr relocated'"
    by (auto split: sum.splits)
  note m1 = relocate_entry_result [OF e]
  show ?case
  proof (cases i)
    case 0
    have "\<forall>r' \<in> set rs. unat (offset_reloc r') + reloc_width gen \<le> unat (offset_reloc r) \<or>
            unat (offset_reloc r) + reloc_width gen \<le> unat (offset_reloc r')"
    proof
      fix r' assume "r' \<in> set rs"
      then obtain j where j: "j < length rs" "rs ! j = r'" by (auto simp add: in_set_conv_nth)
      with Cons.prems(4) [rule_format, of "Suc j"] 0
      show "unat (offset_reloc r') + reloc_width gen \<le> unat (offset_reloc r) \<or>
            unat (offset_reloc r) + reloc_width gen \<le> unat (offset_reloc r')"
        by (simp add: reloc_slots_apart_def)
    qed
    from relocate_loop_frame [OF l this]
    have "take (reloc_width gen) (drop (unat (offset_reloc r)) relocated') =
          take (reloc_width gen) (drop (unat (offset_reloc r)) m1)" .
    also have "\<dots> = (if addr_bits_of_gen gen = 48
        then le64 (signed_drop_bit 16 (push_bit 16 (reloc_value execbuffer2 bo_table r)))
        else le32 (ucast (reloc_value execbuffer2 bo_table r)))"
      unfolding m1 using Cons.prems(3) 0 by (intro aub_write_reloc_slot) simp
    finally show ?thesis using 0 by simp
  next
    case (Suc k)
    have a: "k < length rs" using Cons.prems(2) Suc by simp
    have b: "unat (offset_reloc (rs ! k)) + reloc_width gen \<le> length m1"
      using Cons.prems(3) Suc by (simp add: m1)
    have c: "\<forall>j. k < j \<and> j < length rs \<longrightarrow> reloc_slots_apart gen (rs ! j) (rs ! k)"
    proof (intro allI impI)
      fix j assume "k < j \<and> j < length rs"
      with Cons.prems(4) [rule_format, of "Suc j"] Suc
      show "reloc_slots_apart gen (rs ! j) (rs ! k)" by simp
    qed
    from Cons.IH [OF l a b c] Suc show ?thesis by simp
  qed
qed

text \<open>
  Claim C10. \<^verbatim>\<open>relocate_bo\<close> returns a private copy of the buffer (as long as the
  buffer) in which every relocation entry has been applied. For an entry whose slot lies
  inside the copy and is not overwritten by a later entry, the copy holds at the entry's
  offset: on a device with 48-bit addressing (generation 8 and later) the 64-bit value
  whose low 48 bits are those of the referenced buffer's address plus the entry's delta
  and whose bits 63..48 are copies of bit 47 of that sum; with 32-bit addressing the low
  32 bits of the sum, as they are.
\<close>

theorem relocation_canonical:
  assumes "relocate_bo gen bo_table execbuffer2 b obj = Inr relocated"
    and "map_bo b = Some m" and "unat (size_bo b) \<le> length m"
    and "i < length (relocs obj)"
    and "unat (offset_reloc (relocs obj ! i)) + reloc_width gen \<le> unat (size_bo b)"
    and "\<forall>j. i < j \<and> j < length (relocs obj) \<longrightarrow>
           reloc_slots_apart gen (relocs obj ! j) (relocs obj ! i)"
  shows "length relocated = unat (size_bo b) \<and>
     (addr_bits_of_gen gen = 48 \<longrightarrow>
        (\<forall>n \<in> {48..63}. bit (load64 relocated (unat (offset_reloc (relocs obj ! i)))) n
                          = bit (reloc_value execbuffer2 bo_table (relocs obj ! i)) 47) \<and>
        take_bit 48 (load64 relocated (unat (offset_reloc (relocs obj ! i))))
          = take_bit 48 (reloc_value execbuffer2 bo_table (relocs obj ! i))) \<and>
     (addr_bits_of_gen gen = 32 \<longrightarrow>
        load32 relocated (unat (offset_reloc (relocs obj ! i)))
          = ucast (reloc_value execbuffer2 bo_table (relocs obj ! i)))"
proof -
  let ?r = "relocs obj ! i" and ?m = "take (unat (size_bo b)) m"
  from assms(1,2) have l: "relocate_loop gen bo_table execbuffer2 b (relocs obj) ?m = Inr relocated"
    by (simp add: relocate_bo_def)
  have len: "length ?m = unat (size_bo b)" using assms(3) by simp
  have n: "length relocated = unat (size_bo b)"
    using relocate_loop_length [OF l] len by simp
  have inside: "unat (offset_reloc ?r) + reloc_width gen \<le> length ?m"
    using assms(5) len by simp
  note s = relocate_loop_slot [OF l assms(4) inside assms(6)]
  show ?thesis
  proof (cases "addr_bits_of_gen gen = 48")
    case True
    with s have "load64 relocated (unat (offset_reloc ?r)) =
        signed_drop_bit 16 (push_bit 16 (reloc_value execbuffer2 bo_table ?r))"
      by (simp add: load64_def reloc_width_def of_le_le64)
    with True n show ?thesis
      by (simp add: canonical_high_bits canonical_low_bits)
  next
    case False
    with s have "load32 relocated (unat (offset_reloc ?r)) =
        ucast (reloc_value execbuffer2 bo_table ?r)"
      by (simp add: load32_def reloc_width_def of_le_le32)
    with False n show ?thesis by (simp add: addr_bits_of_gen_def)
  qed
qed

lemmas reloc_eval =
  relocate_bo_def relocate_entry_def reloc_target_def get_bo_def MAX_BO_COUNT_def
  I915_EXEC_HANDLE_LUT_def aub_write_reloc_def store_through_def example_reloc_bos_def
  example_reloc_submit_def example_reloc_bo_def example_reloc_obj_def

text \<open>
  In the example, on a generation-9 device the copy holds \<open>0xFFFF800000001000\<close> at offset
  8, the canonical form of the raw target \<open>0x0000800000001000\<close>, and on a generation-7
  device the low 32 bits \<open>0x00001000\<close>.
\<close>

theorem relocation_canonical_witness:
  "relocate_bo 9 example_reloc_bos example_reloc_submit example_reloc_bo example_reloc_obj
     = Inr (replicate 8 0 @ le64 0xFFFF800000001000 @ le64 0x2010 @ replicate 8 0) \<and>
   reloc_value example_reloc_submit example_reloc_bos (relocs example_reloc_obj ! 0)
     = 0x0000800000001000 \<and>
   load64 (replicate 8 0 @ le64 0xFFFF800000001000 @ le64 0x2010 @ replicate 8 0) 8
     = 0xFFFF800000001000 \<and>
   take_bit 48 (load64 (replicate 8 0 @ le64 0xFFFF800000001000 @ le64 0x2010 @ replicate 8 0) 8)
     = (0x800000001000 :: 64 word) \<and>
   bit (load64 (replicate 8 0 @ le64 0xFFFF800000001000 @ le64 0x2010 @ replicate 8 0) 8) 63 \<and>
   relocate_bo 7 example_reloc_bos example_reloc_submit example_reloc_bo example_reloc_obj
     = Inr (replicate 8 0 @ le32 0x1000 @ replicate 4 0 @ le32 0x2010 @ replicate 12 0) \<and>
   load32 (replicate 8 0 @ le32 0x1000 @ replicate 4 0 @ le32 0x2010 @ replicate 12 0) 8
     = 0x1000"
proof -
  let ?R9 = "replicate 8 0 @ le64 0xFFFF800000001000 @ le64 0x2010 @ replicate 8 (0 :: byte)"
  let ?R7 = "replicate 8 0 @ le32 0x1000 @ replicate 4 0 @ le32 0x2010 @ replicate 12 (0 :: byte)"
  have c: "(- 140737488351232 :: 64 word) = 0xFFFF800000001000" by simp
  have h9: "relocate_bo 9 example_reloc_bos example_reloc_submit example_reloc_bo
              example_reloc_obj = Inr ?R9"
    by (simp add: reloc_eval c)
  have d: "(140737488359424 :: 32 word) = 0x1000" by simp
  have h7: "relocate_bo 7 example_reloc_bos example_reloc_submit example_reloc_bo
              example_reloc_obj = Inr ?R7"
    by (simp add: reloc_eval d)
  have v: "reloc_value example_reloc_submit example_reloc_bos (relocs example_reloc_obj ! 0)
             = 0x0000800000001000"
    by (simp add: reloc_value_def reloc_eval)
  have m: "map_bo example_reloc_bo = Some (replicate 32 0)"
    "unat (size_bo example_reloc_bo) \<le> length (replicate 32 (0 :: byte))"
    "0 < length (relocs example_reloc_obj)"
    by (simp_all add: example_reloc_bo_def example_reloc_obj_def)
  have i9: "unat (offset_reloc (relocs example_reloc_obj ! 0)) + reloc_width 9
              \<le> unat (size_bo example_reloc_bo)"
    "\<forall>j. 0 < j \<and> j < length (relocs example_reloc_obj) \<longrightarrow>
         reloc_slots_apart 9 (relocs example_reloc_obj ! j) (relocs example_reloc_obj ! 0)"
    by (auto simp add: example_reloc_bo_def example_reloc_obj_def reloc_width_def
        addr_bits_of_gen_def reloc_slots_apart_def less_Suc_eq)
  have i7: "unat (offset_reloc (relocs example_reloc_obj ! 0)) + reloc_width 7
              \<le> unat (size_bo example_reloc_bo)"
    "\<forall>j. 0 < j \<and> j < length (relocs example_reloc_obj) \<longrightarrow>
         reloc_slots_apart 7 (relocs example_reloc_obj ! j) (relocs example_reloc_obj ! 0)"
    by (auto simp add: example_reloc_bo_def example_reloc_obj_def reloc_width_def
        addr_bits_of_gen_def reloc_slots_apart_def less_Suc_eq)
  from relocation_canonical [OF h9 m i9]
  have "take_bit 48 (load64 ?R9 8) = (0x800000001000 :: 64 word) \<and> bit (load64 ?R9 8) 63"
    unfolding v by (simp add: addr_bits_of_gen_def example_reloc_obj_def)
  moreover from relocation_canonical [OF h7 m i7]
  have "load32 ?R7 8 = 0x1000"
    unfolding v by (simp add: addr_bits_of_gen_def example_reloc_obj_def)
  moreover have "load64 ?R9 8 = 0xFFFF800000001000"
    by (simp add: load64_def of_le_le64)
  ultimately show ?thesis using h9 h7 v by simp
qed


section \<open>Encoding and decoding one submission (claim C2)\<close>

lemma le32_not_Nil: "le32 w \<noteq> []"
  by (simp add: le32_def)

lemma file_words_le32: "file_words (le32 w @ bs) = w # file_words bs"
proof -
  obtain a b c d where l: "le32 w = [a, b, c, d]" by (simp add: le32_def)
  then have "file_words (le32 w @ bs) = of_le (le32 w) # file_words bs" by simp
  then show ?thesis by (simp only: of_le_le32)
qed

lemma file_words_zeros:
  "file_words (replicate (4 * n) 0 @ bs) = replicate n 0 @ file_words bs"
proof (induction n)
  case 0 show ?case by simp
next
  case (Suc n)
  have "replicate (4 * Suc n) (0 :: byte) = 0 # 0 # 0 # 0 # replicate (4 * n) 0"
    by (simp add: numeral_eq_Suc)
  then show ?case using Suc by simp
qed

lemmas scenario_eval =
  dump_execbuffer2_def identify_device_def example_env_def example_aub_def
  scenario_shim_def scenario_submit_def scenario_bos_def aub_use_execlists_def aub_gtt_size_def
  NUM_PT_ENTRIES_def MEMORY_MAP_SIZE_def PTE_SIZE_def GEN8_PTE_SIZE_def get_bo_def
  MAX_BO_COUNT_def EXEC_OBJECT_PINNED_def I915_EXEC_RING_MASK_def I915_EXEC_BATCH_FIRST_def
  I915_EXEC_HANDLE_LUT_def I915_EXEC_RENDER_def
  assign_buffer_def align_u32_def data_out_def aub_write_trace_block_def
  aub_write_trace_block_loop.simps trace_block_record_def trace_block_header_def
  trace_block_payload_def trace_block_size_def relocate_bo_def relocate_entry_def
  reloc_target_def aub_write_reloc_def store_through_def dword_out_def data_block_header_def
  Let_def

lemma scenario_stream_words:
  "aub_file_open scenario_stream = Inr (
   [CMD_AUB_TRACE_HEADER_BLOCK OR 3,
    AUB_TRACE_MEMTYPE_GTT OR AUB_TRACE_TYPE_NOTYPE OR AUB_TRACE_OP_DATA_WRITE, 0, 0x10000, 8192] @
   replicate 2048 0 @
   [CMD_AUB_TRACE_HEADER_BLOCK OR 3,
    AUB_TRACE_MEMTYPE_GTT OR AUB_TRACE_TYPE_BATCH OR AUB_TRACE_OP_DATA_WRITE, 0, 0x13000, 4096] @
   replicate 2 0 @ [0x10010] @ replicate 1021 0)"
  using file_words_zeros [of 2048] file_words_zeros [of 2] file_words_zeros [of 1021 "[]"]
  by (simp add: aub_file_open_def scenario_stream_def data_block_header_def file_words_le32
      le32_not_Nil)

lemmas trace_block_eval =
  decode_file.simps aub_file_decode_batch_def dispatch_def handle_trace_block_def
  CMD_AUB_TRACE_HEADER_BLOCK_def AUB_TRACE_MEMTYPE_GTT_def
  AUB_TRACE_TYPE_NOTYPE_def AUB_TRACE_TYPE_BATCH_def AUB_TRACE_OP_DATA_WRITE_def
  AUB_TRACE_OP_COMMAND_WRITE_def AUB_TRACE_OPERATION_MASK_def AUB_TRACE_TYPE_MASK_def
  AUB_TRACE_ADDRESS_SPACE_MASK_def gen_48b_address_def nth_append

text \<open>
  Claim C2 (encoding a submission and decoding the stream gives back the buffers and
  exactly one execute event on the render ring). In the scenario of the claim, on a
  generation-7 device with both destinations open, the shim returns with B at \<open>0x10000\<close>
  and A at \<open>0x13000\<close>, and each stream holds the two data blocks only. The decoder reads
  that stream to its end and registers both buffers; the bytes it holds for A have B's
  address plus \<open>0x10\<close> in the relocation slot. But its output has no execute event: the
  shim wrote no execute record, because the last loop of \<^verbatim>\<open>dump_execbuffer2\<close> skips
  the open destinations. With only the file open the submission ends in a fault.
\<close>

theorem scenario_has_no_execute_event:
  "dump_execbuffer2 example_env
     (scenario_shim [Some 0, Some 1] [example_aub 0, example_aub 1]) scenario_submit
   = Inr ((scenario_shim [Some 0, Some 1] [example_aub 0, example_aub 1])
            \<lparr>streams := (\<lambda>f. [])(0 := scenario_stream, 1 := scenario_stream),
             bos := scenario_bos (2 := (scenario_bos 2)\<lparr>offset_bo := 0x10000\<rparr>,
                                  1 := (scenario_bos 1)\<lparr>offset_bo := 0x13000\<rparr>)\<rparr>) \<and>
   (case aub_file_open scenario_stream of
      Inl e \<Rightarrow> False
    | Inr ws \<Rightarrow>
        (case decode_file example_decoder_env ws 0 decoder0 of
           Inl e \<Rightarrow> False
         | Inr d \<Rightarrow>
             filter is_execute_event (outfile d) = [] \<and>
             map (\<lambda>m. (addr (bo_of m), size_dbo (bo_of m),
                       map_option (\<lambda>v. view_bytes v 8 4) (map_dbo (bo_of m)))) (maps d)
               = [(0x13000, 4096, Some (le32 0x10010)), (0x10000, 8192, Some (le32 0))])) \<and>
   dump_execbuffer2 example_env
     (scenario_shim [Some 0, None] [example_aub 0, aub_zero]) scenario_submit = Inl Fault"
proof -
  have a: "dump_execbuffer2 example_env
     (scenario_shim [Some 0, Some 1] [example_aub 0, example_aub 1]) scenario_submit
   = Inr ((scenario_shim [Some 0, Some 1] [example_aub 0, example_aub 1])
            \<lparr>streams := (\<lambda>f. [])(0 := scenario_stream, 1 := scenario_stream),
             bos := scenario_bos (2 := (scenario_bos 2)\<lparr>offset_bo := 0x10000\<rparr>,
                                  1 := (scenario_bos 1)\<lparr>offset_bo := 0x13000\<rparr>)\<rparr>)"
    by (simp add: scenario_eval scenario_stream_def)
  have b: "(case aub_file_open scenario_stream of
      Inl e \<Rightarrow> False
    | Inr ws \<Rightarrow>
        (case decode_file example_decoder_env ws 0 decoder0 of
           Inl e \<Rightarrow> False
         | Inr d \<Rightarrow>
             filter is_execute_event (outfile d) = [] \<and>
             map (\<lambda>m. (addr (bo_of m), size_dbo (bo_of m),
                       map_option (\<lambda>v. view_bytes v 8 4) (map_dbo (bo_of m)))) (maps d)
               = [(0x13000, 4096, Some (le32 0x10010)), (0x10000, 8192, Some (le32 0))]))"
    unfolding scenario_stream_words sum.case
    by (simp add: trace_block_eval header_eval decoder_eval file_view_def le32_def upt_rec)
  have c: "dump_execbuffer2 example_env
     (scenario_shim [Some 0, None] [example_aub 0, aub_zero]) scenario_submit = Inl Fault"
    by (simp add: scenario_eval aub_zero_def aub_write_exec_def aub_dump_ringbuffer_def le32_def
        I915_EXEC_BLT_def I915_EXEC_BSD_def I915_EXEC_DEFAULT_def)
  from a b c show ?thesis by (intro conjI)
qed


section \<open>Mapping a range again (claim C4)\<close>

subsection \<open>The loops of the source over natural numbers\<close>

text \<open>
  For a range that ends at or below \<open>2 ^ 48\<close> the masks, shifts and the 64-bit additions
  of \<^verbatim>\<open>aub_map_ppgtt\<close> are divisions and multiplications of natural numbers, and its
  three nested loops are the loops \<open>gloop\<close> over \<open>nmap\<close>.
\<close>

lemma index_unat:
  fixes w :: "64 word"
  shows "unat (drop_bit k w AND 0x1ff) = unat w div 2 ^ k mod 512"
proof -
  have "(0x1ff :: 64 word) = mask 9" by (simp add: mask_eq_exp_minus_1)
  then have "drop_bit k w AND 0x1ff = take_bit 9 (drop_bit k w)"
    by (simp only: take_bit_eq_mask)
  then have "unat (drop_bit k w AND 0x1ff) = take_bit 9 (drop_bit k (unat w))"
    by (simp only: unsigned_take_bit_eq unat_drop_bit_eq)
  then show ?thesis
    by (simp add: take_bit_eq_mod drop_bit_eq_div)
qed

lemma below_48_bits:
  fixes w :: "64 word"
  assumes "unat w < 2 ^ 48"
  shows "bit w n \<Longrightarrow> n < 48"
proof -
  have "take_bit 48 (unat w) = unat w" using assms by (simp add: take_bit_nat_eq_self)
  then have "unat (take_bit 48 w) = unat w" by (simp only: unsigned_take_bit_eq)
  then have "take_bit 48 w = w" by (simp only: word_unat_eq_iff)
  then have "bit (take_bit 48 w) n = bit w n" by (rule arg_cong)
  then show "bit w n \<Longrightarrow> n < 48" by (simp add: bit_take_bit_iff)
qed

lemma unat_push_drop:
  fixes w :: "64 word"
  shows "unat (push_bit k (drop_bit k w)) = unat w div 2 ^ k * 2 ^ k"
proof -
  have "unat (push_bit k (drop_bit k w)) = take_bit 64 (push_bit k (drop_bit k (unat w)))"
    by (simp add: unsigned_push_bit_eq unat_drop_bit_eq)
  also have "\<dots> = push_bit k (drop_bit k (unat w))"
  proof (rule take_bit_nat_eq_self)
    have "push_bit k (drop_bit k (unat w)) \<le> unat w"
      by (simp add: push_bit_eq_mult drop_bit_eq_div)
    also have "\<dots> < 2 ^ 64" using unsigned_less [of w] by simp
    finally show "push_bit k (drop_bit k (unat w)) < 2 ^ 64" .
  qed
  finally show ?thesis by (simp add: push_bit_eq_mult drop_bit_eq_div)
qed

lemma align_down:
  fixes w :: "64 word"
  assumes "unat w < 2 ^ 48" "k \<le> 48"
  shows "unat (w AND push_bit k (mask (48 - k))) = unat w div 2 ^ k * 2 ^ k"
proof -
  have "w AND push_bit k (mask (48 - k)) = push_bit k (drop_bit k w)"
  proof (rule bit_word_eqI)
    fix n assume "n < LENGTH(64)"
    show "bit (w AND push_bit k (mask (48 - k))) n = bit (push_bit k (drop_bit k w)) n"
    proof (cases "bit w n")
      case True
      then have "n < 48" by (rule below_48_bits [OF assms(1)])
      then show ?thesis using assms(2) by (auto simp add: bit_simps)
    next
      case False
      then show ?thesis by (auto simp add: bit_simps)
    qed
  qed
  then show ?thesis by (simp only: unat_push_drop)
qed

lemma align_up:
  fixes w :: "64 word"
  assumes "unat w < 2 ^ 48" "k \<le> 48"
  shows "unat ((w OR mask k) AND mask 48) = unat w div 2 ^ k * 2 ^ k + 2 ^ k - 1"
proof -
  have "uint (mask k :: 64 word) = mask k" using assms(2) by (simp add: uint_mask_eq min_def)
  then have "unat (mask k :: 64 word) = nat (mask k)" by (simp only: unat_eq_nat_uint)
  then have m: "unat (mask k :: 64 word) = 2 ^ k - 1"
    by (simp add: mask_eq_exp_minus_1 nat_diff_distrib nat_power_eq)
  have "(w OR mask k) AND mask 48 = push_bit k (drop_bit k w) + mask k"
  proof -
    have "push_bit k (drop_bit k w) + mask k = push_bit k (drop_bit k w) OR mask k"
      by (rule disjunctive_add) (auto simp add: bit_simps)
    also have "\<dots> = (w OR mask k) AND mask 48"
    proof (rule bit_word_eqI)
      fix n assume "n < LENGTH(64)"
      show "bit (push_bit k (drop_bit k w) OR mask k) n = bit ((w OR mask k) AND mask 48) n"
      proof (cases "bit w n")
        case True
        then have "n < 48" by (rule below_48_bits [OF assms(1)])
        then show ?thesis using assms(2) by (auto simp add: bit_simps)
      next
        case False
        then show ?thesis using assms(2) by (auto simp add: bit_simps)
      qed
    qed
    finally show ?thesis by simp
  qed
  moreover have "unat (push_bit k (drop_bit k w) + (mask k :: 64 word))
                   = unat (push_bit k (drop_bit k w)) + unat (mask k :: 64 word)"
  proof (rule unat_add_lem [THEN iffD1])
    have d: "unat w div 2 ^ k * 2 ^ k \<le> unat w" by (rule div_times_less_eq_dividend)
    have "(2::nat) ^ k \<le> 2 ^ 48" using assms(2) by (intro power_increasing) simp_all
    then have p: "(2::nat) ^ k \<le> 281474976710656" by simp
    have a: "unat w < 281474976710656" using assms(1) by simp
    have "unat w div 2 ^ k * 2 ^ k + (2 ^ k - 1) < 18446744073709551616"
      using d p a by linarith
    then show "unat (push_bit k (drop_bit k w)) + unat (mask k :: 64 word) < 2 ^ LENGTH(64)"
      by (simp add: unat_push_drop m)
  qed
  ultimately show ?thesis using m by (simp add: unat_push_drop)
qed


lemma shift_values [simp]: "shift 0 = 12" "shift (Suc 0) = 21" "shift 1 = 21" "shift 2 = 30" "shift 3 = 39" "shift 4 = 48"
  "shift (Suc (Suc 0)) = 30" "shift (Suc 2) = 39" "shift (Suc 3) = 48"
  by (simp_all add: shift_def)

lemma tpath_values:
  "tpath 4 a = []" "tpath 3 a = [pidx 3 a]" "tpath 2 a = [pidx 3 a, pidx 2 a]"
  "tpath 1 a = [pidx 3 a, pidx 2 a, pidx 1 a]"
  "tpath 0 a = [pidx 3 a, pidx 2 a, pidx 1 a, pidx 0 a]"
  by (simp_all add: tpath_def upt_rec numeral_2_eq_2 numeral_3_eq_3)

lemma index_pidx:
  "L4_index w = pidx 3 (unat w)" "L3_index w = pidx 2 (unat w)"
  "L2_index w = pidx 1 (unat w)" "L1_index w = pidx 0 (unat w)"
  by (simp_all add: L4_index_def L3_index_def L2_index_def L1_index_def pidx_def index_unat)

lemma table_tpath:
  "L3_table w = tpath 3 (unat w)" "L2_table w = tpath 2 (unat w)" "L1_table w = tpath 1 (unat w)"
  by (simp_all add: L3_table_def L2_table_def L1_table_def tpath_values index_pidx
      tpath_values(4) [unfolded One_nat_def])

lemma mask_numerals:
  "(0xffffffffffff :: 64 word) = mask 48"
  "(0x000000000fff :: 64 word) = mask 12"
  "(0x0000001fffff :: 64 word) = mask 21"
  "(0x00003fffffff :: 64 word) = mask 30"
  "(0x007fffffffff :: 64 word) = mask 39"
  "(0xfffffffff000 :: 64 word) = push_bit 12 (mask (48 - 12))"
  "(0xffffffe00000 :: 64 word) = push_bit 21 (mask (48 - 21))"
  "(0xffffc0000000 :: 64 word) = push_bit 30 (mask (48 - 30))"
  "(0xff8000000000 :: 64 word) = push_bit 39 (mask (48 - 39))"
  by (simp_all add: mask_eq_exp_minus_1 push_bit_eq_mult)


lemma unat_max_word: "unat (max a b :: 'a::len word) = max (unat a) (unat b)"
  by (simp add: max_def word_le_nat_alt)

lemma block_step_unat:
  fixes w :: "64 word"
  assumes "unat w < 2 ^ 48" "k \<le> 48"
  shows "unat (w + push_bit k 1) = unat w + 2 ^ k"
    and "unat (w + push_bit k 1 - 1) = unat w + 2 ^ k - 1"
proof -
  have "(2::nat) ^ k \<le> 2 ^ 48" using assms(2) by (intro power_increasing) simp_all
  then have p: "(2::nat) ^ k \<le> 281474976710656" by simp
  then have "(2::nat) ^ k < 2 ^ 64" by simp
  then have "unat (of_nat (2 ^ k) :: 64 word) = 2 ^ k"
    by (simp only: unat_of_nat) simp
  then have u: "unat (push_bit k 1 :: 64 word) = 2 ^ k"
    by (simp add: push_bit_eq_mult)
  have "unat w + unat (push_bit k 1 :: 64 word) < 2 ^ LENGTH(64)"
    using assms(1) p unfolding u by simp
  then show a: "unat (w + push_bit k 1) = unat w + 2 ^ k"
    unfolding u [symmetric] by (simp only: unat_add_lem)
  then have "w + push_bit k 1 \<noteq> 0" by (simp add: unat_eq_0 [symmetric] del: unat_eq_0)
  then have "unat (w + push_bit k 1 - 1) = unat (w + push_bit k 1) - 1"
    by (rule unat_minus_one)
  then show "unat (w + push_bit k 1 - 1) = unat w + 2 ^ k - 1"
    by (simp only: a)
qed

lemma range_end_unat:
  fixes start size' :: "64 word"
  assumes "unat start + unat size' \<le> 2 ^ 48" "0 < unat size'"
  shows "unat (start + size' - 1) = unat start + unat size' - 1"
proof -
  have "unat start + unat size' < 2 ^ LENGTH(64)" using assms(1) by simp
  then have a: "unat (start + size') = unat start + unat size'" by (simp only: unat_add_lem)
  then have "start + size' \<noteq> 0" using assms(2) by (simp add: unat_eq_0 [symmetric] del: unat_eq_0)
  then have "unat (start + size' - 1) = unat (start + size') - 1"
    by (rule unat_minus_one)
  then show ?thesis by (simp only: a)
qed

lemma block_lo_unat:
  fixes c s :: "64 word"
  assumes "unat s < 2 ^ 48"
  shows "unat (max c (s AND 0xfffffffff000)) = block_lo 0 (unat c) (unat s)"
    and "unat (max c (s AND 0xffffffe00000)) = block_lo 1 (unat c) (unat s)"
    and "unat (max c (s AND 0xffffc0000000)) = block_lo 2 (unat c) (unat s)"
    and "unat (s AND 0xff8000000000) = block_lo 3 0 (unat s)"
  unfolding mask_numerals unat_max_word block_lo_def
  by (simp_all only: align_down [OF assms] shift_values max_0L)

lemma block_hi_unat:
  fixes c e :: "64 word"
  assumes "unat e < 2 ^ 48" "unat c < 2 ^ 48"
  shows "unat (min (c + push_bit 21 1 - 1) ((e OR 0x000000000fff) AND 0xffffffffffff))
           = block_hi 0 (unat c) (unat e)"
    and "unat (min (c + push_bit 30 1 - 1) ((e OR 0x0000001fffff) AND 0xffffffffffff))
           = block_hi 1 (unat c) (unat e)"
    and "unat (min (c + push_bit 39 1 - 1) ((e OR 0x00003fffffff) AND 0xffffffffffff))
           = block_hi 2 (unat c) (unat e)"
  unfolding mask_numerals unat_min_word block_hi_def
  by (simp_all only: align_up [OF assms(1)] block_step_unat(2) [OF assms(2)] shift_values) simp_all


lemma block_hi_below:
  assumes "E < 2 ^ 48" "n \<le> 3"
  shows "block_hi n c E < 2 ^ 48"
proof -
  have "shift n \<le> 48" using assms(2) by (simp add: shift_def)
  then have "(2::nat) ^ 48 = 2 ^ (48 - shift n) * 2 ^ shift n"
    by (simp add: power_add [symmetric])
  moreover from this have "E div 2 ^ shift n < 2 ^ (48 - shift n)"
    using assms(1) by (simp add: less_mult_imp_div_less)
  then have "Suc (E div 2 ^ shift n) * 2 ^ shift n \<le> 2 ^ (48 - shift n) * 2 ^ shift n"
    by (intro mult_le_mono1) simp
  ultimately have "E div 2 ^ shift n * 2 ^ shift n + 2 ^ shift n - 1 < 2 ^ 48" by simp
  then show ?thesis unfolding block_hi_def by (rule min.strict_coboundedI2)
qed

lemma gloop_step:
  "c < hi \<Longrightarrow> 0 < step \<Longrightarrow>
   gloop step body hi c acc =
     (case body c acc of None \<Rightarrow> None | Some acc' \<Rightarrow> gloop step body hi (c + step) acc')"
  by (subst gloop.simps) simp

lemma gloop_done: "\<not> c < hi \<Longrightarrow> gloop step body hi c acc = Some acc"
  by (subst gloop.simps) simp

lemma l2_refine:
  fixes start size' l3 l2 :: "64 word"
  assumes "unat start + unat size' \<le> 2 ^ 48" "0 < unat size'" "unat l3 < 2 ^ 48"
  shows "aub_map_ppgtt_l2 start size' l3 l2 acc =
           gloop (2 ^ 21) (nmap 0 (unat start) (unat start + unat size' - 1))
             (block_hi 1 (unat l3) (unat start + unat size' - 1)) (unat l2) acc"
  using assms
proof (induction start size' l3 l2 acc rule: aub_map_ppgtt_l2.induct)
  case (1 start size' l3 l2 acc)
  let ?S = "unat start" and ?E = "unat start + unat size' - 1"
  let ?end = "min (l3 + push_bit 30 1 - 1) (((start + size' - 1) OR 0x0000001fffff) AND 0xffffffffffff)"
  let ?l1s = "max l2 (start AND 0xfffffffff000)"
  let ?l1e = "min (l2 + push_bit 21 1 - 1) (((start + size' - 1) OR 0x000000000fff) AND 0xffffffffffff)"
  note E = range_end_unat [OF "1.prems"(1,2)]
  have Eb: "unat (start + size' - 1) < 2 ^ 48" and Sb: "unat start < 2 ^ 48"
    using "1.prems"(1,2) by (simp_all add: E)
  have hi: "unat ?end = block_hi 1 (unat l3) ?E"
    using block_hi_unat(2) [OF Eb "1.prems"(3)] by (simp only: E)
  show ?case
  proof (cases "l2 < ?end")
    case True
    then have lt: "unat l2 < block_hi 1 (unat l3) ?E"
      by (simp only: word_less_nat_alt hi)
    also have "\<dots> < 2 ^ 48" using Eb by (intro block_hi_below) (simp_all add: E)
    finally have l2b: "unat l2 < 2 ^ 48" .
    have step: "unat (l2 + push_bit 21 1) = unat l2 + 2 ^ 21"
      by (rule block_step_unat(1) [OF l2b]) simp
    have body: "populate_next acc (L1_table l2) (L1_index ?l1s) (L1_index ?l1e) 1
                  = nmap 0 ?S ?E (unat l2) acc"
      by (simp only: nmap.simps table_tpath index_pidx block_lo_unat(1) [OF Sb]
            block_hi_unat(1) [OF Eb l2b] E)
    have lhs: "aub_map_ppgtt_l2 start size' l3 l2 acc =
        (case populate_next acc (L1_table l2) (L1_index ?l1s) (L1_index ?l1e) 1 of
           None \<Rightarrow> None
         | Some acc' \<Rightarrow> aub_map_ppgtt_l2 start size' l3 (l2 + push_bit 21 1) acc')"
      by (subst aub_map_ppgtt_l2.simps) (simp only: Let_def True if_True)
    have rhs: "gloop (2 ^ 21) (nmap 0 ?S ?E) (block_hi 1 (unat l3) ?E) (unat l2) acc =
        (case nmap 0 ?S ?E (unat l2) acc of
           None \<Rightarrow> None
         | Some acc' \<Rightarrow> gloop (2 ^ 21) (nmap 0 ?S ?E) (block_hi 1 (unat l3) ?E)
                         (unat l2 + 2 ^ 21) acc')"
      by (rule gloop_step [OF lt]) simp
    show ?thesis
    proof (cases "nmap 0 ?S ?E (unat l2) acc")
      case None
      then show ?thesis by (simp only: lhs rhs body option.case)
    next
      case (Some acc')
      then have pn: "populate_next acc (L1_table l2) (L1_index ?l1s) (L1_index ?l1e) 1 = Some acc'"
        by (simp only: body)
      note ih = "1.IH" [OF refl True refl refl refl refl pn "1.prems"]
      show ?thesis by (simp only: lhs rhs body Some option.case ih step)
    qed
  next
    case False
    then have "\<not> unat l2 < block_hi 1 (unat l3) ?E"
      by (simp only: word_less_nat_alt hi simp_thms)
    then have "gloop (2 ^ 21) (nmap 0 ?S ?E) (block_hi 1 (unat l3) ?E) (unat l2) acc = Some acc"
      by (rule gloop_done)
    moreover have "aub_map_ppgtt_l2 start size' l3 l2 acc = Some acc"
      using False by (subst aub_map_ppgtt_l2.simps) (simp only: Let_def if_False)
    ultimately show ?thesis by (simp only:)
  qed
qed


lemma nmap_levels:
  "nmap 0 S E P acc =
     populate_next acc (tpath 1 P) (pidx 0 (block_lo 0 P S)) (pidx 0 (block_hi 0 P E)) 1"
  "nmap 1 S E P acc =
     (case populate_next acc (tpath 2 P) (pidx 1 (block_lo 1 P S)) (pidx 1 (block_hi 1 P E)) 2 of
        None \<Rightarrow> None
      | Some acc' \<Rightarrow> gloop (2 ^ 21) (nmap 0 S E) (block_hi 1 P E) (block_lo 1 P S) acc')"
  "nmap 2 S E P acc =
     (case populate_next acc (tpath 3 P) (pidx 2 (block_lo 2 P S)) (pidx 2 (block_hi 2 P E)) 3 of
        None \<Rightarrow> None
      | Some acc' \<Rightarrow> gloop (2 ^ 30) (nmap 1 S E) (block_hi 2 P E) (block_lo 2 P S) acc')"
  "nmap 3 S E P acc =
     (case populate_next acc (tpath 4 P) (pidx 3 (block_lo 3 P S)) (pidx 3 (block_hi 3 P E)) 4 of
        None \<Rightarrow> None
      | Some acc' \<Rightarrow> gloop (2 ^ 39) (nmap 2 S E) (block_hi 3 P E) (block_lo 3 P S) acc')"
proof -
  show "nmap 0 S E P acc =
     populate_next acc (tpath 1 P) (pidx 0 (block_lo 0 P S)) (pidx 0 (block_hi 0 P E)) 1"
    by (simp only: nmap.simps)
  have s: "Suc 0 = 1" "Suc 1 = 2" "Suc 2 = 3" "Suc 3 = 4" by simp_all
  from nmap.simps(2) [of 0 S E P acc] show "nmap 1 S E P acc =
     (case populate_next acc (tpath 2 P) (pidx 1 (block_lo 1 P S)) (pidx 1 (block_hi 1 P E)) 2 of
        None \<Rightarrow> None
      | Some acc' \<Rightarrow> gloop (2 ^ 21) (nmap 0 S E) (block_hi 1 P E) (block_lo 1 P S) acc')"
    by (simp only: s shift_values)
  from nmap.simps(2) [of 1 S E P acc] show "nmap 2 S E P acc =
     (case populate_next acc (tpath 3 P) (pidx 2 (block_lo 2 P S)) (pidx 2 (block_hi 2 P E)) 3 of
        None \<Rightarrow> None
      | Some acc' \<Rightarrow> gloop (2 ^ 30) (nmap 1 S E) (block_hi 2 P E) (block_lo 2 P S) acc')"
    by (simp only: s shift_values)
  from nmap.simps(2) [of 2 S E P acc] show "nmap 3 S E P acc =
     (case populate_next acc (tpath 4 P) (pidx 3 (block_lo 3 P S)) (pidx 3 (block_hi 3 P E)) 4 of
        None \<Rightarrow> None
      | Some acc' \<Rightarrow> gloop (2 ^ 39) (nmap 2 S E) (block_hi 3 P E) (block_lo 3 P S) acc')"
    by (simp only: s shift_values)
qed

lemma l3_refine:
  fixes start size' l4 l3 :: "64 word"
  assumes "unat start + unat size' \<le> 2 ^ 48" "0 < unat size'" "unat l4 < 2 ^ 48"
  shows "aub_map_ppgtt_l3 start size' l4 l3 acc =
           gloop (2 ^ 30) (nmap 1 (unat start) (unat start + unat size' - 1))
             (block_hi 2 (unat l4) (unat start + unat size' - 1)) (unat l3) acc"
  using assms
proof (induction start size' l4 l3 acc rule: aub_map_ppgtt_l3.induct)
  case (1 start size' l4 l3 acc)
  let ?S = "unat start" and ?E = "unat start + unat size' - 1"
  let ?end = "min (l4 + push_bit 39 1 - 1) (((start + size' - 1) OR 0x00003fffffff) AND 0xffffffffffff)"
  let ?l2s = "max l3 (start AND 0xffffffe00000)"
  let ?l2e = "min (l3 + push_bit 30 1 - 1) (((start + size' - 1) OR 0x0000001fffff) AND 0xffffffffffff)"
  note E = range_end_unat [OF "1.prems"(1,2)]
  have Eb: "unat (start + size' - 1) < 2 ^ 48" and Sb: "unat start < 2 ^ 48"
    using "1.prems"(1,2) by (simp_all add: E)
  have hi: "unat ?end = block_hi 2 (unat l4) ?E"
    using block_hi_unat(3) [OF Eb "1.prems"(3)] by (simp only: E)
  show ?case
  proof (cases "l3 < ?end")
    case True
    then have lt: "unat l3 < block_hi 2 (unat l4) ?E"
      by (simp only: word_less_nat_alt hi)
    also have "\<dots> < 2 ^ 48" using Eb by (intro block_hi_below) (simp_all add: E)
    finally have l3b: "unat l3 < 2 ^ 48" .
    have step: "unat (l3 + push_bit 30 1) = unat l3 + 2 ^ 30"
      by (rule block_step_unat(1) [OF l3b]) simp
    have lo: "unat ?l2s = block_lo 1 (unat l3) ?S" by (rule block_lo_unat(2) [OF Sb])
    have body: "(case populate_next acc (L2_table l3) (L2_index ?l2s) (L2_index ?l2e) 2 of
                   None \<Rightarrow> None
                 | Some acc' \<Rightarrow> aub_map_ppgtt_l2 start size' l3 ?l2s acc')
                  = nmap 1 ?S ?E (unat l3) acc"
      by (simp only: nmap_levels(2) table_tpath index_pidx lo
            block_hi_unat(2) [OF Eb l3b] E l2_refine [OF "1.prems"(1,2) l3b])
    have lhs: "aub_map_ppgtt_l3 start size' l4 l3 acc =
        (case populate_next acc (L2_table l3) (L2_index ?l2s) (L2_index ?l2e) 2 of
           None \<Rightarrow> None
         | Some acc' \<Rightarrow>
             (case aub_map_ppgtt_l2 start size' l3 ?l2s acc' of
                None \<Rightarrow> None
              | Some acc'' \<Rightarrow> aub_map_ppgtt_l3 start size' l4 (l3 + push_bit 30 1) acc''))"
      by (subst aub_map_ppgtt_l3.simps) (simp only: Let_def True if_True)
    have rhs: "gloop (2 ^ 30) (nmap 1 ?S ?E) (block_hi 2 (unat l4) ?E) (unat l3) acc =
        (case nmap 1 ?S ?E (unat l3) acc of
           None \<Rightarrow> None
         | Some acc' \<Rightarrow> gloop (2 ^ 30) (nmap 1 ?S ?E) (block_hi 2 (unat l4) ?E)
                         (unat l3 + 2 ^ 30) acc')"
      by (rule gloop_step [OF lt]) simp
    show ?thesis
    proof (cases "populate_next acc (L2_table l3) (L2_index ?l2s) (L2_index ?l2e) 2")
      case None
      then have "nmap 1 ?S ?E (unat l3) acc = None" by (simp only: body [symmetric] option.case)
      with None show ?thesis by (simp only: lhs rhs option.case)
    next
      case pn: (Some acc')
      show ?thesis
      proof (cases "aub_map_ppgtt_l2 start size' l3 ?l2s acc'")
        case None
        then have "nmap 1 ?S ?E (unat l3) acc = None"
          by (simp only: body [symmetric] pn option.case)
        with None pn show ?thesis by (simp only: lhs rhs option.case)
      next
        case (Some acc'')
        then have n: "nmap 1 ?S ?E (unat l3) acc = Some acc''"
          by (simp only: body [symmetric] pn option.case)
        note ih = "1.IH" [OF refl True refl refl refl refl pn Some "1.prems"]
        show ?thesis by (simp only: lhs rhs pn Some n option.case ih step)
      qed
    qed
  next
    case False
    then have "\<not> unat l3 < block_hi 2 (unat l4) ?E"
      by (simp only: word_less_nat_alt hi simp_thms)
    then have "gloop (2 ^ 30) (nmap 1 ?S ?E) (block_hi 2 (unat l4) ?E) (unat l3) acc = Some acc"
      by (rule gloop_done)
    moreover have "aub_map_ppgtt_l3 start size' l4 l3 acc = Some acc"
      using False by (subst aub_map_ppgtt_l3.simps) (simp only: Let_def if_False)
    ultimately show ?thesis by (simp only:)
  qed
qed


lemma block_hi_top:
  assumes "E < 2 ^ 48"
  shows "block_hi 3 0 E = E div 2 ^ 39 * 2 ^ 39 + 2 ^ 39 - 1"
proof -
  have "E div 2 ^ 39 < 2 ^ 9" using assms by (simp add: less_mult_imp_div_less)
  then have "Suc (E div 2 ^ 39) * 2 ^ 39 \<le> 2 ^ 9 * 2 ^ 39"
    by (intro mult_le_mono1) simp
  then show ?thesis by (simp add: block_hi_def)
qed

lemma l4_refine:
  fixes start size' l4 :: "64 word"
  assumes "unat start + unat size' \<le> 2 ^ 48" "0 < unat size'"
  shows "aub_map_ppgtt_l4 start size' l4 acc =
           gloop (2 ^ 39) (nmap 2 (unat start) (unat start + unat size' - 1))
             (block_hi 3 0 (unat start + unat size' - 1)) (unat l4) acc"
  using assms
proof (induction start size' l4 acc rule: aub_map_ppgtt_l4.induct)
  case (1 start size' l4 acc)
  let ?S = "unat start" and ?E = "unat start + unat size' - 1"
  let ?end = "((start + size' - 1) OR 0x007fffffffff) AND 0xffffffffffff"
  let ?l3s = "max l4 (start AND 0xffffc0000000)"
  let ?l3e = "min (l4 + push_bit 39 1 - 1) (((start + size' - 1) OR 0x00003fffffff) AND 0xffffffffffff)"
  note E = range_end_unat [OF "1.prems"(1,2)]
  have Eb: "unat (start + size' - 1) < 2 ^ 48" and Sb: "unat start < 2 ^ 48"
    and Eb': "?E < 2 ^ 48"
    using "1.prems"(1,2) by (simp_all add: E)
  have "unat ?end = ?E div 2 ^ 39 * 2 ^ 39 + 2 ^ 39 - 1"
    unfolding mask_numerals using align_up [OF Eb, of 39] by (simp only: E)
  then have hi: "unat ?end = block_hi 3 0 ?E"
    by (simp only: block_hi_top [OF Eb'])
  show ?case
  proof (cases "l4 < ?end")
    case True
    then have lt: "unat l4 < block_hi 3 0 ?E"
      by (simp only: word_less_nat_alt hi)
    also have "\<dots> < 2 ^ 48" using Eb' by (intro block_hi_below) simp_all
    finally have l4b: "unat l4 < 2 ^ 48" .
    have step: "unat (l4 + push_bit 39 1) = unat l4 + 2 ^ 39"
      by (rule block_step_unat(1) [OF l4b]) simp
    have lo: "unat ?l3s = block_lo 2 (unat l4) ?S" by (rule block_lo_unat(3) [OF Sb])
    have body: "(case populate_next acc (L3_table l4) (L3_index ?l3s) (L3_index ?l3e) 3 of
                   None \<Rightarrow> None
                 | Some acc' \<Rightarrow> aub_map_ppgtt_l3 start size' l4 ?l3s acc')
                  = nmap 2 ?S ?E (unat l4) acc"
      by (simp only: nmap_levels(3) table_tpath index_pidx lo
            block_hi_unat(3) [OF Eb l4b] E l3_refine [OF "1.prems"(1,2) l4b])
    have lhs: "aub_map_ppgtt_l4 start size' l4 acc =
        (case populate_next acc (L3_table l4) (L3_index ?l3s) (L3_index ?l3e) 3 of
           None \<Rightarrow> None
         | Some acc' \<Rightarrow>
             (case aub_map_ppgtt_l3 start size' l4 ?l3s acc' of
                None \<Rightarrow> None
              | Some acc'' \<Rightarrow> aub_map_ppgtt_l4 start size' (l4 + push_bit 39 1) acc''))"
      by (subst aub_map_ppgtt_l4.simps) (simp only: Let_def True if_True)
    have rhs: "gloop (2 ^ 39) (nmap 2 ?S ?E) (block_hi 3 0 ?E) (unat l4) acc =
        (case nmap 2 ?S ?E (unat l4) acc of
           None \<Rightarrow> None
         | Some acc' \<Rightarrow> gloop (2 ^ 39) (nmap 2 ?S ?E) (block_hi 3 0 ?E)
                         (unat l4 + 2 ^ 39) acc')"
      by (rule gloop_step [OF lt]) simp
    show ?thesis
    proof (cases "populate_next acc (L3_table l4) (L3_index ?l3s) (L3_index ?l3e) 3")
      case None
      then have "nmap 2 ?S ?E (unat l4) acc = None" by (simp only: body [symmetric] option.case)
      with None show ?thesis by (simp only: lhs rhs option.case)
    next
      case pn: (Some acc')
      show ?thesis
      proof (cases "aub_map_ppgtt_l3 start size' l4 ?l3s acc'")
        case None
        then have "nmap 2 ?S ?E (unat l4) acc = None"
          by (simp only: body [symmetric] pn option.case)
        with None pn show ?thesis by (simp only: lhs rhs option.case)
      next
        case (Some acc'')
        then have n: "nmap 2 ?S ?E (unat l4) acc = Some acc''"
          by (simp only: body [symmetric] pn option.case)
        note ih = "1.IH" [OF refl True refl refl refl refl pn Some "1.prems"]
        show ?thesis by (simp only: lhs rhs pn Some n option.case ih step)
      qed
    qed
  next
    case False
    then have "\<not> unat l4 < block_hi 3 0 ?E"
      by (simp only: word_less_nat_alt hi simp_thms)
    then have "gloop (2 ^ 39) (nmap 2 ?S ?E) (block_hi 3 0 ?E) (unat l4) acc = Some acc"
      by (rule gloop_done)
    moreover have "aub_map_ppgtt_l4 start size' l4 acc = Some acc"
      using False by (subst aub_map_ppgtt_l4.simps) (simp only: Let_def if_False)
    ultimately show ?thesis by (simp only:)
  qed
qed

lemma aub_map_ppgtt_refine:
  fixes start size' :: "64 word"
  assumes "unat start + unat size' \<le> 2 ^ 48" "0 < unat size'"
  shows "aub_map_ppgtt p start size' =
           nmap 3 (unat start) (unat start + unat size' - 1) 0 (p, [])"
proof -
  let ?S = "unat start" and ?E = "unat start + unat size' - 1"
  let ?end = "((start + size' - 1) OR 0x007fffffffff) AND 0xffffffffffff"
  note E = range_end_unat [OF assms]
  have Eb: "unat (start + size' - 1) < 2 ^ 48" and Sb: "unat start < 2 ^ 48"
    and Eb': "?E < 2 ^ 48"
    using assms by (simp_all add: E)
  have "unat ?end = ?E div 2 ^ 39 * 2 ^ 39 + 2 ^ 39 - 1"
    unfolding mask_numerals using align_up [OF Eb, of 39] by (simp only: E)
  then have hi: "unat ?end = block_hi 3 0 ?E"
    by (simp only: block_hi_top [OF Eb'])
  have lo: "unat (start AND 0xff8000000000) = block_lo 3 0 ?S" by (rule block_lo_unat(4) [OF Sb])
  show ?thesis
    unfolding aub_map_ppgtt_def Let_def nmap_levels(4) index_pidx hi lo l4_refine [OF assms]
    by (simp only: tpath_values(1))
qed

subsection \<open>What one call of the populate operation leaves behind\<close>

text \<open>
  A call of \<^verbatim>\<open>populate_ppgtt_table\<close> fills every slot of its range, takes at most one
  value from the allocator for each, and keeps every slot that was filled before. A call
  for a range whose slots are all filled changes nothing and writes nothing.
\<close>

lemma populate_slot_alloc:
  assumes "0 < unat (phys_addrs_allocator (pp st))" "unat (phys_addrs_allocator (pp st)) < 2 ^ 52 - 1"
  shows "pml4 (pp (populate_slot level tbl i st)) (tbl @ [i]) \<noteq> None"
    and "unat (phys_addrs_allocator (pp st)) \<le> unat (phys_addrs_allocator (pp (populate_slot level tbl i st)))"
    and "unat (phys_addrs_allocator (pp (populate_slot level tbl i st))) \<le> Suc (unat (phys_addrs_allocator (pp st)))"
proof -
  let ?a = "phys_addrs_allocator (pp st)"
  have "unat ?a + unat (1 :: 64 word) < 2 ^ LENGTH(64)" using assms(2) by simp
  then have s: "unat (?a + 1) = Suc (unat ?a)" by (simp only: unat_add_lem) simp
  have "unat (push_bit 12 ?a) = take_bit 64 (push_bit 12 (unat ?a))"
    by (simp add: unsigned_push_bit_eq)
  also have "\<dots> = push_bit 12 (unat ?a)"
    using assms(2) by (intro take_bit_nat_eq_self) (simp add: push_bit_eq_mult)
  finally have "unat (push_bit 12 ?a) \<noteq> 0" using assms(1) by (simp add: push_bit_eq_mult)
  then have nz: "push_bit 12 ?a \<noteq> 0" by (simp add: unat_eq_0 [symmetric] del: unat_eq_0)
  show "pml4 (pp (populate_slot level tbl i st)) (tbl @ [i]) \<noteq> None"
    using nz by (simp add: populate_slot_def Let_def as_pointer_def)
  show "unat ?a \<le> unat (phys_addrs_allocator (pp (populate_slot level tbl i st)))"
    using s by (simp add: populate_slot_def Let_def)
  show "unat (phys_addrs_allocator (pp (populate_slot level tbl i st))) \<le> Suc (unat ?a)"
    using s by (simp add: populate_slot_def Let_def)
qed

lemma populate_loop_alloc:
  assumes "0 < unat (phys_addrs_allocator (pp st))"
    and "unat (phys_addrs_allocator (pp st)) + (Suc end - i) < 2 ^ 52"
  shows "unat (phys_addrs_allocator (pp st))
           \<le> unat (phys_addrs_allocator (pp (populate_loop level tbl i end st))) \<and>
         unat (phys_addrs_allocator (pp (populate_loop level tbl i end st)))
           \<le> unat (phys_addrs_allocator (pp st)) + (Suc end - i) \<and>
         (\<forall>j. i \<le> j \<and> j \<le> end \<longrightarrow>
            pml4 (pp (populate_loop level tbl i end st)) (tbl @ [j]) \<noteq> None)"
  using assms
proof (induction level tbl i "end" st rule: populate_loop.induct)
  case (1 level tbl i "end" st)
  show ?case
  proof (cases "i \<le> end")
    case False
    then have "populate_loop level tbl i end st = st" by (subst populate_loop.simps) simp
    with False show ?thesis by auto
  next
    case True
    let ?st = "populate_slot level tbl i st"
    have u: "populate_loop level tbl i end st = populate_loop level tbl (Suc i) end ?st"
      using True by (subst populate_loop.simps) simp
    have b: "unat (phys_addrs_allocator (pp st)) < 2 ^ 52 - 1"
      using "1.prems"(2) True by simp
    note ps = populate_slot_alloc [OF "1.prems"(1) b, of level tbl i]
    have p1: "0 < unat (phys_addrs_allocator (pp ?st))" using ps(2) "1.prems"(1) by simp
    have p2: "unat (phys_addrs_allocator (pp ?st)) + (Suc end - Suc i) < 2 ^ 52"
      using ps(3) "1.prems"(2) True by simp
    note ih = "1.IH" [OF True p1 p2]
    have keep: "pml4 (pp (populate_loop level tbl (Suc i) end ?st)) (tbl @ [i]) \<noteq> None"
      using populate_loop_existing [OF ps(1), of level tbl "Suc i" "end"] ps(1) by simp
    have "\<forall>j. i \<le> j \<and> j \<le> end \<longrightarrow>
            pml4 (pp (populate_loop level tbl (Suc i) end ?st)) (tbl @ [j]) \<noteq> None"
    proof (intro allI impI)
      fix j assume j: "i \<le> j \<and> j \<le> end"
      show "pml4 (pp (populate_loop level tbl (Suc i) end ?st)) (tbl @ [j]) \<noteq> None"
      proof (cases "j = i")
        case True
        then show ?thesis using keep by simp
      next
        case False
        with j have "Suc i \<le> j \<and> j \<le> end" by simp
        with ih show ?thesis by blast
      qed
    qed
    moreover have "unat (phys_addrs_allocator (pp st))
           \<le> unat (phys_addrs_allocator (pp (populate_loop level tbl (Suc i) end ?st)))"
      using ih ps(2) by linarith
    moreover have "unat (phys_addrs_allocator (pp (populate_loop level tbl (Suc i) end ?st)))
           \<le> unat (phys_addrs_allocator (pp st)) + (Suc end - i)"
      using ih ps(3) True by linarith
    ultimately show ?thesis unfolding u by blast
  qed
qed


lemma extends_refl: "extends acc acc"
  by (simp add: extends_def)

lemma extends_trans: "extends a b \<Longrightarrow> extends b c \<Longrightarrow> extends a c"
  by (simp add: extends_def)

lemma extends_present:
  "extends a b \<Longrightarrow> pml4 (fst a) t \<noteq> None \<Longrightarrow> pml4 (fst b) t \<noteq> None"
  by (simp add: extends_def)

lemma extends_phys_addr:
  "extends a b \<Longrightarrow> phys_addr (pml4 (fst a)) t \<noteq> None \<Longrightarrow> phys_addr (pml4 (fst b)) t \<noteq> None"
  by (auto simp add: extends_def phys_addr_def split: if_splits)

lemma populate_next_noop:
  assumes "start \<le> end \<Longrightarrow> phys_addr (pml4 (fst acc)) tbl \<noteq> None"
    and "\<And>i. start \<le> i \<Longrightarrow> i \<le> end \<Longrightarrow> pml4 (fst acc) (tbl @ [i]) \<noteq> None"
  shows "populate_next acc tbl start end level = Some acc"
proof -
  let ?init = "\<lparr>pp = fst acc, entries = (\<lambda>i. 0), dirty_start = 512, dirty_end = 0\<rparr>"
  have n: "new_slots (pml4 (pp ?init)) tbl start end = []"
    using assms(2) by (auto simp add: new_slots_def filter_empty_conv)
  note populate_loop_nothing_new [OF n, of level] populate_loop_dirty [of level tbl start "end" ?init]
  then show ?thesis using assms(1) n
    by (cases acc) (auto simp add: populate_next_def populate_ppgtt_table_def Let_def)
qed

lemma populate_next_Some:
  assumes "start \<le> end \<Longrightarrow> phys_addr (pml4 (fst acc)) tbl \<noteq> None"
  shows "\<exists>out. populate_next acc tbl start end level =
           Some (pp (populate_loop level tbl start end
                       \<lparr>pp = fst acc, entries = (\<lambda>i. 0), dirty_start = 512, dirty_end = 0\<rparr>), out)"
proof (cases "start \<le> end")
  case True
  from assms [OF this] show ?thesis
    by (simp add: populate_next_def populate_ppgtt_table_def Let_def)
next
  case False
  then show ?thesis
    by (simp add: populate_next_def populate_ppgtt_table_def Let_def)
qed

lemma populate_next_maps:
  assumes "start \<le> end \<Longrightarrow> phys_addr (pml4 (fst acc)) tbl \<noteq> None"
    and "0 < alloc acc" and "alloc acc + (Suc end - start) < 2 ^ 52"
  shows "\<exists>acc'. populate_next acc tbl start end level = Some acc' \<and> extends acc acc' \<and>
           alloc acc \<le> alloc acc' \<and> alloc acc' \<le> alloc acc + (Suc end - start) \<and>
           (\<forall>i. start \<le> i \<and> i \<le> end \<longrightarrow> pml4 (fst acc') (tbl @ [i]) \<noteq> None)"
proof -
  let ?init = "\<lparr>pp = fst acc, entries = (\<lambda>i. 0), dirty_start = 512, dirty_end = 0\<rparr>"
  let ?st = "populate_loop level tbl start end ?init"
  obtain out where r: "populate_next acc tbl start end level = Some (pp ?st, out)"
    using populate_next_Some [of start "end" acc tbl level] assms(1) by blast
  have a: "0 < unat (phys_addrs_allocator (pp ?init))"
    "unat (phys_addrs_allocator (pp ?init)) + (Suc end - start) < 2 ^ 52"
    using assms(2,3) by (simp_all add: alloc_def)
  note l = populate_loop_alloc [OF a, of level tbl]
  have e: "extends acc (pp ?st, out)"
    unfolding extends_def using populate_loop_existing [of ?init _ level tbl start "end"] by simp
  show ?thesis unfolding r using l e by (simp add: alloc_def)
qed

subsection \<open>Blocks, slots and addresses\<close>

lemma shift_Suc: "(2::nat) ^ shift (Suc n) = 512 * 2 ^ shift n"
  by (simp add: shift_def power_add)

lemma parent_block: "(a::nat) div 2 ^ shift (Suc n) = a div 2 ^ shift n div 512"
  by (simp add: shift_Suc div_mult2_eq mult.commute)

lemma max_times: "max (x * B) (y * B) = max x y * (B::nat)"
proof (cases "x \<le> y")
  case True
  then have "x * B \<le> y * B" by (rule mult_le_mono1)
  with True show ?thesis by (simp add: max_def)
next
  case False
  then have "y * B \<le> x * B" by (intro mult_le_mono1) simp
  with False show ?thesis by (simp add: max_def)
qed

lemma min_times: "min (x * B + B - 1) (y * B + B - 1) = min x y * B + B - (1::nat)"
proof (cases "x \<le> y")
  case True
  then have "x * B \<le> y * B" by (rule mult_le_mono1)
  then have "x * B + B - 1 \<le> y * B + B - 1" by linarith
  with True show ?thesis by (simp add: min_def)
next
  case False
  then have "y * B \<le> x * B" by (intro mult_le_mono1) simp
  then have "y * B + B - 1 \<le> x * B + B - 1" by linarith
  with False show ?thesis by (simp add: min_def)
qed

text \<open>Block numbers: the part of a block that a table handles.\<close>

lemma block_lo_blocks:
  assumes "2 ^ shift (Suc n) dvd P"
  shows "block_lo n P S = max (512 * (P div 2 ^ shift (Suc n))) (S div 2 ^ shift n) * 2 ^ shift n"
proof -
  from assms obtain q where q: "P = 2 ^ shift (Suc n) * q" by (rule dvdE)
  then have p: "P = 512 * q * 2 ^ shift n" by (simp add: shift_Suc)
  have d: "P div 2 ^ shift (Suc n) = q" using q by simp
  show ?thesis unfolding block_lo_def d max_times [symmetric] by (simp add: p)
qed

lemma block_hi_blocks:
  assumes "2 ^ shift (Suc n) dvd P"
  shows "block_hi n P E =
           min (512 * (P div 2 ^ shift (Suc n)) + 511) (E div 2 ^ shift n) * 2 ^ shift n
             + 2 ^ shift n - 1"
proof -
  let ?B = "(2::nat) ^ shift n"
  from assms obtain q where q: "P = 2 ^ shift (Suc n) * q" by (rule dvdE)
  then have p: "P = 512 * q * ?B" by (simp add: shift_Suc)
  have d: "P div 2 ^ shift (Suc n) = q" using q by simp
  have "P + 2 ^ shift (Suc n) - 1 = (512 * q + 511) * ?B + ?B - 1"
    unfolding p shift_Suc by (simp add: algebra_simps)
  then show ?thesis unfolding block_hi_def d min_times [symmetric] by simp
qed


lemma div_block_top: "0 < B \<Longrightarrow> (x * B + B - 1) div B = (x::nat)"
proof -
  assume b: "0 < B"
  then have "x * B + B - 1 = B - 1 + x * B" by simp
  also have "\<dots> div B = (B - 1) div B + x" using b by (simp only: div_mult_self1)
  also have "\<dots> = x" using b by simp
  finally show ?thesis .
qed

lemma mod_512:
  assumes "512 * Q \<le> x" "x \<le> 512 * Q + 511"
  shows "x mod 512 = x - 512 * (Q::nat)" "x div 512 = Q"
proof -
  define r where "r = x - 512 * Q"
  with assms have x: "x = r + Q * 512" and r: "r < 512" by simp_all
  show "x mod 512 = x - 512 * Q" unfolding x using r by simp
  show "x div 512 = Q" unfolding x using r by simp
qed

lemma meets_blocks:
  assumes "meets n P S E"
  obtains lo' hi' where
    "block_lo n P S = lo' * 2 ^ shift n"
    "block_hi n P E = hi' * 2 ^ shift n + 2 ^ shift n - 1"
    "512 * (P div 2 ^ shift (Suc n)) \<le> lo'" "lo' \<le> hi'"
    "hi' \<le> 512 * (P div 2 ^ shift (Suc n)) + 511"
    "S div 2 ^ shift n \<le> lo'" "hi' \<le> E div 2 ^ shift n"
    "\<forall>b. 512 * (P div 2 ^ shift (Suc n)) \<le> b \<and> S div 2 ^ shift n \<le> b \<longrightarrow> lo' \<le> b"
    "\<forall>b. b \<le> 512 * (P div 2 ^ shift (Suc n)) + 511 \<and> b \<le> E div 2 ^ shift n \<longrightarrow> b \<le> hi'"
proof -
  let ?B = "(2::nat) ^ shift n" and ?Q = "P div 2 ^ shift (Suc n)"
  from assms have d: "2 ^ shift (Suc n) dvd P" and pe: "P \<le> E"
    and sp: "S < P + 2 ^ shift (Suc n)" and se: "S \<le> E"
    by (simp_all add: meets_def)
  from d obtain q where q: "P = 2 ^ shift (Suc n) * q" by (rule dvdE)
  then have Q: "?Q = q" by simp
  have p: "P = 512 * q * ?B" using q by (simp add: shift_Suc)
  have "P div ?B \<le> E div ?B" using pe by (rule div_le_mono)
  then have e: "512 * ?Q \<le> E div ?B" unfolding Q by (simp add: p)
  have "S < (512 * q + 512) * ?B" using sp unfolding p shift_Suc by (simp add: algebra_simps)
  then have "S div ?B < 512 * q + 512" by (simp add: less_mult_imp_div_less)
  then have s: "S div ?B \<le> 512 * ?Q + 511" unfolding Q by simp
  have se': "S div ?B \<le> E div ?B" using se by (rule div_le_mono)
  show ?thesis
  proof (rule that [of "max (512 * ?Q) (S div ?B)" "min (512 * ?Q + 511) (E div ?B)"])
    show "block_lo n P S = max (512 * ?Q) (S div ?B) * ?B" by (rule block_lo_blocks [OF d])
    show "block_hi n P E = min (512 * ?Q + 511) (E div ?B) * ?B + ?B - 1"
      by (rule block_hi_blocks [OF d])
  qed (use e s se' in simp_all)
qed


lemma pidx_bottom: "pidx n (x * 2 ^ shift n) = x mod 512"
  by (simp add: pidx_def)

lemma pidx_top: "pidx n (x * 2 ^ shift n + 2 ^ shift n - 1) = x mod 512"
proof -
  have "(x * 2 ^ shift n + 2 ^ shift n - 1) div 2 ^ shift n = x" by (rule div_block_top) simp
  then show ?thesis by (simp only: pidx_def)
qed

text \<open>
  The slot of an address of the range inside the block lies between the two indices that
  \<^verbatim>\<open>populate_ppgtt_table\<close> is called with, and each index between them is the slot of
  such an address.
\<close>

lemma index_in_range:
  assumes "meets n P S E" "S \<le> a" "a \<le> E" "a div 2 ^ shift (Suc n) = P div 2 ^ shift (Suc n)"
  shows "pidx n (block_lo n P S) \<le> pidx n a" "pidx n a \<le> pidx n (block_hi n P E)"
proof -
  let ?B = "(2::nat) ^ shift n" and ?Q = "P div 2 ^ shift (Suc n)"
  from assms(1) obtain lo' hi' where b:
    "block_lo n P S = lo' * ?B" "block_hi n P E = hi' * ?B + ?B - 1"
    "512 * ?Q \<le> lo'" "lo' \<le> hi'" "hi' \<le> 512 * ?Q + 511"
    "S div ?B \<le> lo'" "hi' \<le> E div ?B"
    "\<forall>b. 512 * ?Q \<le> b \<and> S div ?B \<le> b \<longrightarrow> lo' \<le> b"
    "\<forall>b. b \<le> 512 * ?Q + 511 \<and> b \<le> E div ?B \<longrightarrow> b \<le> hi'"
    by (rule meets_blocks)
  have "a div ?B div 512 = ?Q" using assms(4) by (simp only: parent_block)
  then have q: "512 * ?Q \<le> a div ?B" "a div ?B \<le> 512 * ?Q + 511"
    using div_mult_mod_eq [of "a div ?B" 512] mod_less_divisor [of 512 "a div ?B"]
    by linarith+
  have "S div ?B \<le> a div ?B" "a div ?B \<le> E div ?B"
    using assms(2,3) by (simp_all add: div_le_mono)
  with q b(8,9) have l: "lo' \<le> a div ?B" "a div ?B \<le> hi'" by simp_all
  have m: "lo' mod 512 = lo' - 512 * ?Q" "hi' mod 512 = hi' - 512 * ?Q"
    "a div ?B mod 512 = a div ?B - 512 * ?Q"
    using b(3,4,5) q by (simp_all add: mod_512)
  show "pidx n (block_lo n P S) \<le> pidx n a"
    unfolding b(1) pidx_bottom m(1) unfolding pidx_def m(3) using l(1) by simp
  show "pidx n a \<le> pidx n (block_hi n P E)"
    unfolding b(2) pidx_top m(2) unfolding pidx_def m(3) using l(2) by simp
qed


lemma index_has_address:
  assumes "meets n P S E" "pidx n (block_lo n P S) \<le> i" "i \<le> pidx n (block_hi n P E)"
  obtains a where "S \<le> a" "a \<le> E" "a div 2 ^ shift (Suc n) = P div 2 ^ shift (Suc n)"
    "pidx n a = i"
proof -
  let ?B = "(2::nat) ^ shift n" and ?Q = "P div 2 ^ shift (Suc n)"
  from assms(1) obtain lo' hi' where b:
    "block_lo n P S = lo' * ?B" "block_hi n P E = hi' * ?B + ?B - 1"
    "512 * ?Q \<le> lo'" "lo' \<le> hi'" "hi' \<le> 512 * ?Q + 511"
    "S div ?B \<le> lo'" "hi' \<le> E div ?B"
    "\<forall>b. 512 * ?Q \<le> b \<and> S div ?B \<le> b \<longrightarrow> lo' \<le> b"
    "\<forall>b. b \<le> 512 * ?Q + 511 \<and> b \<le> E div ?B \<longrightarrow> b \<le> hi'"
    by (rule meets_blocks)
  from assms(1) have se: "S \<le> E" by (simp add: meets_def)
  have m: "lo' mod 512 = lo' - 512 * ?Q" "hi' mod 512 = hi' - 512 * ?Q"
    using b(3,4,5) by (simp_all add: mod_512)
  from assms(2,3) have i: "lo' - 512 * ?Q \<le> i" "i \<le> hi' - 512 * ?Q"
    unfolding b(1,2) pidx_bottom pidx_top m by simp_all
  define k where "k = 512 * ?Q + i"
  have k: "lo' \<le> k" "k \<le> hi'" "512 * ?Q \<le> k" "k \<le> 512 * ?Q + 511"
    using i b(3,4,5) by (simp_all add: k_def)
  have km: "k mod 512 = i" "k div 512 = ?Q"
    using mod_512 [OF k(3,4)] by (simp_all add: k_def)
  have kE: "k * ?B \<le> E"
  proof -
    have "k * ?B \<le> E div ?B * ?B" using k(2) b(7) by (intro mult_le_mono1) simp
    also have "\<dots> \<le> E" by simp
    finally show ?thesis .
  qed
  have d: "max S (k * ?B) div ?B = k"
  proof (cases "S \<le> k * ?B")
    case True
    then show ?thesis by (simp add: max_def)
  next
    case False
    then have "k * ?B < S" by simp
    then have "k \<le> S div ?B" by (simp add: less_eq_div_iff_mult_less_eq)
    with b(6) k(1) have "S div ?B = k" by simp
    with False show ?thesis by (simp add: max_def)
  qed
  show ?thesis
  proof (rule that [of "max S (k * ?B)"])
    show "S \<le> max S (k * ?B)" by simp
    show "max S (k * ?B) \<le> E" using se kE by simp
    show "max S (k * ?B) div 2 ^ shift (Suc n) = ?Q" by (simp only: parent_block d km)
    show "pidx n (max S (k * ?B)) = i" by (simp only: pidx_def d km)
  qed
qed

text \<open>
  The loop over the slots of a table visits the blocks of its slots that have an address
  in common with the range, and no more than 512 of them.
\<close>

lemma child_meets:
  assumes "meets (Suc n) P S E" "2 ^ shift (Suc n) dvd c"
    and "block_lo (Suc n) P S \<le> c" "c < block_hi (Suc n) P E"
  shows "meets n c S E"
    and "c div 2 ^ shift (Suc (Suc n)) = P div 2 ^ shift (Suc (Suc n))"
proof -
  let ?B = "(2::nat) ^ shift (Suc n)" and ?Q = "P div 2 ^ shift (Suc (Suc n))"
  from assms(1) obtain lo' hi' where b:
    "block_lo (Suc n) P S = lo' * ?B" "block_hi (Suc n) P E = hi' * ?B + ?B - 1"
    "512 * ?Q \<le> lo'" "lo' \<le> hi'" "hi' \<le> 512 * ?Q + 511"
    "S div ?B \<le> lo'" "hi' \<le> E div ?B"
    "\<forall>b. 512 * ?Q \<le> b \<and> S div ?B \<le> b \<longrightarrow> lo' \<le> b"
    "\<forall>b. b \<le> 512 * ?Q + 511 \<and> b \<le> E div ?B \<longrightarrow> b \<le> hi'"
    by (rule meets_blocks)
  from assms(1) have se: "S \<le> E" by (simp add: meets_def)
  from assms(2) obtain k where c: "c = k * ?B" by (auto elim: dvdE simp add: mult.commute)
  have "lo' * ?B \<le> k * ?B" using assms(3) unfolding b(1) c .
  then have k1: "lo' \<le> k" by simp
  have "0 < ?B" by simp
  then have "hi' * ?B + ?B - 1 < hi' * ?B + ?B" by linarith
  with assms(4) have "k * ?B < hi' * ?B + ?B" unfolding b(2) c by simp
  also have "\<dots> = (hi' + 1) * ?B" by (simp add: algebra_simps)
  finally have "k < hi' + 1" unfolding mult_less_cancel2 by simp
  then have k2: "k \<le> hi'" by simp
  have "k * ?B \<le> E div ?B * ?B" using k2 b(7) by (intro mult_le_mono1) simp
  also have "\<dots> \<le> E" by simp
  finally have cE: "c \<le> E" unfolding c .
  have "S < (S div ?B + 1) * ?B" using dividend_less_div_times [of ?B S] by (simp add: algebra_simps)
  also have "\<dots> \<le> (k + 1) * ?B" using k1 b(6) by (intro mult_le_mono1) simp
  finally have Sc: "S < c + ?B" unfolding c by simp
  show "meets n c S E" unfolding meets_def using assms(2) cE Sc se by simp
  have "c div ?B = k" unfolding c by simp
  moreover have "k div 512 = ?Q" using mod_512(2) [of ?Q k] k1 k2 b(3,5) by simp
  ultimately show "c div 2 ^ shift (Suc (Suc n)) = ?Q" by (simp only: parent_block)
qed

lemma loop_count:
  assumes "meets n P S E"
  shows "block_hi n P E < block_lo n P S + 512 * 2 ^ shift n"
proof -
  let ?B = "(2::nat) ^ shift n" and ?Q = "P div 2 ^ shift (Suc n)"
  from assms(1) obtain lo' hi' where b:
    "block_lo n P S = lo' * ?B" "block_hi n P E = hi' * ?B + ?B - 1"
    "512 * ?Q \<le> lo'" "lo' \<le> hi'" "hi' \<le> 512 * ?Q + 511"
    "S div ?B \<le> lo'" "hi' \<le> E div ?B"
    "\<forall>b. 512 * ?Q \<le> b \<and> S div ?B \<le> b \<longrightarrow> lo' \<le> b"
    "\<forall>b. b \<le> 512 * ?Q + 511 \<and> b \<le> E div ?B \<longrightarrow> b \<le> hi'"
    by (rule meets_blocks)
  have "0 < ?B" by simp
  then have "hi' * ?B + ?B - 1 < hi' * ?B + ?B" by linarith
  also have "\<dots> = (hi' + 1) * ?B" by (simp add: algebra_simps)
  also have "\<dots> \<le> (lo' + 512) * ?B" using b(3,5) by (intro mult_le_mono1) simp
  finally show ?thesis unfolding b(1,2) by (simp add: algebra_simps)
qed

lemma child_of_address:
  assumes "meets n P S E" "S \<le> a" "a \<le> E" "a div 2 ^ shift (Suc n) = P div 2 ^ shift (Suc n)"
  obtains j where "block_lo n P S + j * 2 ^ shift n < block_hi n P E"
    and "a div 2 ^ shift n = (block_lo n P S + j * 2 ^ shift n) div 2 ^ shift n"
proof -
  let ?B = "(2::nat) ^ shift n" and ?Q = "P div 2 ^ shift (Suc n)"
  from assms(1) obtain lo' hi' where b:
    "block_lo n P S = lo' * ?B" "block_hi n P E = hi' * ?B + ?B - 1"
    "512 * ?Q \<le> lo'" "lo' \<le> hi'" "hi' \<le> 512 * ?Q + 511"
    "S div ?B \<le> lo'" "hi' \<le> E div ?B"
    "\<forall>b. 512 * ?Q \<le> b \<and> S div ?B \<le> b \<longrightarrow> lo' \<le> b"
    "\<forall>b. b \<le> 512 * ?Q + 511 \<and> b \<le> E div ?B \<longrightarrow> b \<le> hi'"
    by (rule meets_blocks)
  have "a div ?B div 512 = ?Q" using assms(4) by (simp only: parent_block)
  then have q: "512 * ?Q \<le> a div ?B" "a div ?B \<le> 512 * ?Q + 511"
    using div_mult_mod_eq [of "a div ?B" 512] mod_less_divisor [of 512 "a div ?B"]
    by linarith+
  have "S div ?B \<le> a div ?B" "a div ?B \<le> E div ?B"
    using assms(2,3) by (simp_all add: div_le_mono)
  with q b(8,9) have l: "lo' \<le> a div ?B" "a div ?B \<le> hi'" by simp_all
  define j where "j = a div ?B - lo'"
  have e: "lo' * ?B + j * ?B = (a div ?B) * ?B" using l(1) by (simp add: j_def algebra_simps flip: distrib_right)
  have "(a div ?B) * ?B \<le> hi' * ?B" using l(2) by (rule mult_le_mono1)
  also have "\<dots> < hi' * ?B + ?B - 1"
  proof -
    have "(2::nat) ^ 1 \<le> 2 ^ shift n" by (intro power_increasing) (simp_all add: shift_def)
    then show ?thesis by simp
  qed
  finally have lt: "(a div ?B) * ?B < hi' * ?B + ?B - 1" .
  show ?thesis
  proof (rule that [of j])
    show "block_lo n P S + j * ?B < block_hi n P E" unfolding b(1,2) e by (rule lt)
    show "a div ?B = (block_lo n P S + j * ?B) div ?B" unfolding b(1) e by simp
  qed
qed

subsection \<open>Mapping fills the tables of every address of the range\<close>

lemma tpath_Suc: "n < 4 \<Longrightarrow> tpath n a = tpath (Suc n) a @ [pidx n a]"
  by (simp add: tpath_def upt_conv_Cons)

lemma tpath_root: "4 \<le> n \<Longrightarrow> tpath n a = []"
  by (simp add: tpath_def)

lemma pidx_same_block:
  assumes "a div 2 ^ shift n = b div 2 ^ shift n" "n \<le> m"
  shows "pidx m a = pidx m b"
proof -
  have "shift m = shift n + 9 * (m - n)" using assms(2) by (simp add: shift_def algebra_simps)
  then have "\<And>x::nat. x div 2 ^ shift m = x div 2 ^ shift n div 2 ^ (9 * (m - n))"
    by (simp add: power_add div_mult2_eq)
  then show ?thesis using assms(1) by (simp add: pidx_def)
qed

lemma tpath_same_block:
  assumes "a div 2 ^ shift n = b div 2 ^ shift n"
  shows "tpath n a = tpath n b"
  unfolding tpath_def using pidx_same_block [OF assms] by simp

lemma meets_address:
  assumes "meets n c S E"
  obtains a where "S \<le> a" "a \<le> E" "a div 2 ^ shift (Suc n) = c div 2 ^ shift (Suc n)"
proof -
  let ?PB = "(2::nat) ^ shift (Suc n)"
  from assms have d: "?PB dvd c" and cE: "c \<le> E" and Sc: "S < c + ?PB" and se: "S \<le> E"
    by (simp_all add: meets_def)
  from d obtain q where c: "c = q * ?PB" by (auto elim: dvdE simp add: mult.commute)
  have "max S c div ?PB = q"
    by (rule div_nat_eqI) (use Sc in \<open>simp_all add: c mult.commute\<close>)
  moreover have "c div ?PB = q" unfolding c by simp
  ultimately show ?thesis using se cE by (intro that [of "max S c"]) simp_all
qed


lemma gloop_noop:
  assumes "\<And>c. V c \<Longrightarrow> c < hi \<Longrightarrow> body c acc = Some acc \<and> V (c + B)"
  shows "V c \<Longrightarrow> gloop B body hi c acc = Some acc"
proof (induction "hi - c" arbitrary: c rule: less_induct)
  case less
  show ?case
  proof (cases "c < hi \<and> 0 < B")
    case True
    with assms [OF less.prems] have b: "body c acc = Some acc" "V (c + B)" by simp_all
    from True have "hi - (c + B) < hi - c" by linarith
    then have "gloop B body hi (c + B) acc = Some acc"
      using b(2) by (rule less.hyps)
    then show ?thesis using True b(1) by (subst gloop.simps) simp
  next
    case False
    then show ?thesis by (subst gloop.simps) auto
  qed
qed

lemma gloop_maps:
  assumes body: "\<And>c acc. V c \<Longrightarrow> c < hi \<Longrightarrow> 0 < alloc acc \<Longrightarrow> alloc acc + bud < 2 ^ 52 \<Longrightarrow>
             Pre c acc \<Longrightarrow>
             \<exists>acc'. body c acc = Some acc' \<and> extends acc acc' \<and> alloc acc \<le> alloc acc' \<and>
                    alloc acc' \<le> alloc acc + bud \<and> Post c acc'"
    and valid: "\<And>c. V c \<Longrightarrow> c < hi \<Longrightarrow> V (c + B)"
    and pre: "\<And>c acc acc'. Pre c acc \<Longrightarrow> extends acc acc' \<Longrightarrow> Pre c acc'"
    and post: "\<And>c acc acc'. Post c acc \<Longrightarrow> extends acc acc' \<Longrightarrow> Post c acc'"
    and B: "0 < B"
  shows "V c \<Longrightarrow> hi < c + k * B \<Longrightarrow> 0 < alloc acc \<Longrightarrow> alloc acc + bud * k < 2 ^ 52 \<Longrightarrow>
         (\<forall>j. c + j * B < hi \<longrightarrow> Pre (c + j * B) acc) \<Longrightarrow>
         \<exists>acc'. gloop B body hi c acc = Some acc' \<and> extends acc acc' \<and> alloc acc \<le> alloc acc' \<and>
                alloc acc' \<le> alloc acc + bud * k \<and>
                (\<forall>j. c + j * B < hi \<longrightarrow> Post (c + j * B) acc')"
proof (induction k arbitrary: c acc)
  case 0
  then have "\<not> c < hi" by simp
  then have "gloop B body hi c acc = Some acc" by (rule gloop_done)
  moreover have "\<forall>j. c + j * B < hi \<longrightarrow> Post (c + j * B) acc" using \<open>\<not> c < hi\<close> by simp
  ultimately show ?case by (simp add: extends_refl)
next
  case (Suc k)
  show ?case
  proof (cases "c < hi")
    case False
    then have "gloop B body hi c acc = Some acc" by (rule gloop_done)
    moreover have "\<forall>j. c + j * B < hi \<longrightarrow> Post (c + j * B) acc" using False by simp
    ultimately show ?thesis by (simp add: extends_refl)
  next
    case True
    have p0: "Pre c acc" using Suc.prems(5) True by (auto dest: spec [of _ 0])
    have a0: "alloc acc + bud < 2 ^ 52" using Suc.prems(4) by simp
    from body [OF Suc.prems(1) True Suc.prems(3) a0 p0] obtain acc1 where
      b: "body c acc = Some acc1" "extends acc acc1" "alloc acc \<le> alloc acc1"
         "alloc acc1 \<le> alloc acc + bud" "Post c acc1"
      by blast
    have v: "V (c + B)" using Suc.prems(1) True by (rule valid)
    have h: "hi < c + B + k * B" using Suc.prems(2) by simp
    have a1: "0 < alloc acc1" using b(3) Suc.prems(3) by simp
    have a2: "alloc acc1 + bud * k < 2 ^ 52" using b(4) Suc.prems(4) by simp
    have p1: "\<forall>j. c + B + j * B < hi \<longrightarrow> Pre (c + B + j * B) acc1"
    proof (intro allI impI)
      fix j assume "c + B + j * B < hi"
      then have "c + Suc j * B < hi" by (simp add: algebra_simps)
      with Suc.prems(5) have "Pre (c + Suc j * B) acc" by blast
      then have "Pre (c + Suc j * B) acc1" using b(2) by (rule pre)
      then show "Pre (c + B + j * B) acc1" by (simp add: algebra_simps)
    qed
    from Suc.IH [OF v h a1 a2 p1] obtain acc' where
      r: "gloop B body hi (c + B) acc1 = Some acc'" "extends acc1 acc'" "alloc acc1 \<le> alloc acc'"
         "alloc acc' \<le> alloc acc1 + bud * k"
         "\<forall>j. c + B + j * B < hi \<longrightarrow> Post (c + B + j * B) acc'"
      by blast
    have g: "gloop B body hi c acc = Some acc'"
      using gloop_step [OF True B, of body acc] b(1) r(1) by simp
    have e: "extends acc acc'" using b(2) r(2) by (rule extends_trans)
    have "\<forall>j. c + j * B < hi \<longrightarrow> Post (c + j * B) acc'"
    proof (intro allI impI)
      fix j assume j: "c + j * B < hi"
      show "Post (c + j * B) acc'"
      proof (cases j)
        case 0
        then show ?thesis using post [OF b(5) r(2)] by simp
      next
        case (Suc i)
        with j have "c + B + i * B < hi" by (simp add: algebra_simps)
        with r(5) have "Post (c + B + i * B) acc'" by blast
        then show ?thesis using Suc by (simp add: algebra_simps)
      qed
    qed
    moreover have "alloc acc \<le> alloc acc'" using b(3) r(3) by simp
    moreover have "alloc acc' \<le> alloc acc + bud * Suc k" using b(4) r(4) by simp
    ultimately show ?thesis using g e by blast
  qed
qed


lemma pidx_less: "pidx n a < 512"
  by (simp add: pidx_def)

lemma slot_of_address:
  assumes "n \<le> 3" "meets n P S E" "S \<le> a" "a \<le> E"
    and "a div 2 ^ shift (Suc n) = P div 2 ^ shift (Suc n)"
  obtains i where "tpath n a = tpath (Suc n) P @ [i]"
    and "pidx n (block_lo n P S) \<le> i" and "i \<le> pidx n (block_hi n P E)"
proof (rule that [of "pidx n a"])
  show "tpath n a = tpath (Suc n) P @ [pidx n a]"
    using assms(1) tpath_same_block [OF assms(5)] by (simp add: tpath_Suc)
  show "pidx n (block_lo n P S) \<le> pidx n a" "pidx n a \<le> pidx n (block_hi n P E)"
    using index_in_range [OF assms(2-5)] by simp_all
qed


lemma nmap_maps:
  "n \<le> 3 \<Longrightarrow> meets n P S E \<Longrightarrow> phys_addr (pml4 (fst acc)) (tpath (Suc n) P) \<noteq> None \<Longrightarrow>
   0 < alloc acc \<Longrightarrow> alloc acc + budget n < 2 ^ 52 \<Longrightarrow>
   \<exists>acc'. nmap n S E P acc = Some acc' \<and> extends acc acc' \<and> alloc acc \<le> alloc acc' \<and>
          alloc acc' \<le> alloc acc + budget n \<and>
          (\<forall>a. S \<le> a \<and> a \<le> E \<and> a div 2 ^ shift (Suc n) = P div 2 ^ shift (Suc n) \<longrightarrow>
               (\<forall>m \<le> n. pml4 (fst acc') (tpath m a) \<noteq> None))"
proof (induction n arbitrary: P acc)
  case 0
  let ?s = "pidx 0 (block_lo 0 P S)" and ?e = "pidx 0 (block_hi 0 P E)"
  have "Suc ?e - ?s \<le> 512" using pidx_less [of 0 "block_hi 0 P E"] by simp
  then have a: "alloc acc + (Suc ?e - ?s) < 2 ^ 52" using "0.prems"(5) by simp
  from populate_next_maps [of ?s ?e acc "tpath (Suc 0) P", OF "0.prems"(3,4) a, of 1]
  obtain acc' where r: "populate_next acc (tpath (Suc 0) P) ?s ?e 1 = Some acc'"
    "extends acc acc'" "alloc acc \<le> alloc acc'" "alloc acc' \<le> alloc acc + (Suc ?e - ?s)"
    "\<forall>i. ?s \<le> i \<and> i \<le> ?e \<longrightarrow> pml4 (fst acc') (tpath (Suc 0) P @ [i]) \<noteq> None"
    by blast
  have n: "nmap 0 S E P acc = Some acc'" using r(1) by (simp add: nmap.simps)
  have "\<forall>a. S \<le> a \<and> a \<le> E \<and> a div 2 ^ shift (Suc 0) = P div 2 ^ shift (Suc 0) \<longrightarrow>
               (\<forall>m \<le> 0. pml4 (fst acc') (tpath m a) \<noteq> None)"
  proof (intro allI impI)
    fix a m :: nat
    assume a: "S \<le> a \<and> a \<le> E \<and> a div 2 ^ shift (Suc 0) = P div 2 ^ shift (Suc 0)"
      and "m \<le> 0"
    then have m: "m = 0" by simp
    from a obtain i where "tpath 0 a = tpath (Suc 0) P @ [i]" "?s \<le> i" "i \<le> ?e"
      using slot_of_address [OF "0.prems"(1,2), of a] by blast
    with r(5) show "pml4 (fst acc') (tpath m a) \<noteq> None" unfolding m by simp
  qed
  moreover have "alloc acc' \<le> alloc acc + budget 0"
    using r(4) \<open>Suc ?e - ?s \<le> 512\<close> by simp
  ultimately show ?case using n r(2,3) by blast
next
  case (Suc n)
  let ?s = "pidx (Suc n) (block_lo (Suc n) P S)" and ?e = "pidx (Suc n) (block_hi (Suc n) P E)"
  let ?lo = "block_lo (Suc n) P S" and ?hi = "block_hi (Suc n) P E"
  let ?B = "(2::nat) ^ shift (Suc n)"
  let ?V = "\<lambda>c. ?B dvd c \<and> ?lo \<le> c"
  let ?Pre = "\<lambda>c acc. phys_addr (pml4 (fst acc)) (tpath (Suc n) c) \<noteq> None"
  let ?Post = "\<lambda>c acc. \<forall>a. S \<le> a \<and> a \<le> E \<and> a div ?B = c div ?B \<longrightarrow>
                          (\<forall>m \<le> n. pml4 (fst acc) (tpath m a) \<noteq> None)"
  have n3: "n \<le> 3" "Suc n \<le> 3" using Suc.prems(1) by simp_all
  have w: "Suc ?e - ?s \<le> 512" using pidx_less [of "Suc n" ?hi] by simp
  then have a: "alloc acc + (Suc ?e - ?s) < 2 ^ 52" using Suc.prems(5) by simp
  from populate_next_maps [of ?s ?e acc "tpath (Suc (Suc n)) P", OF Suc.prems(3,4) a,
      of "Suc (Suc n)"]
  obtain acc1 where r: "populate_next acc (tpath (Suc (Suc n)) P) ?s ?e (Suc (Suc n)) = Some acc1"
    "extends acc acc1" "alloc acc \<le> alloc acc1" "alloc acc1 \<le> alloc acc + (Suc ?e - ?s)"
    "\<forall>i. ?s \<le> i \<and> i \<le> ?e \<longrightarrow> pml4 (fst acc1) (tpath (Suc (Suc n)) P @ [i]) \<noteq> None"
    by blast
  have top: "pml4 (fst acc1) (tpath (Suc n) a) \<noteq> None"
    if "S \<le> a" "a \<le> E" "a div 2 ^ shift (Suc (Suc n)) = P div 2 ^ shift (Suc (Suc n))" for a
  proof -
    from that obtain i where "tpath (Suc n) a = tpath (Suc (Suc n)) P @ [i]" "?s \<le> i" "i \<le> ?e"
      using slot_of_address [OF n3(2) Suc.prems(2), of a] by blast
    with r(5) show ?thesis by simp
  qed
  define V where "V = (\<lambda>c. ?B dvd c \<and> ?lo \<le> c)"
  define Pre where "Pre = (\<lambda>c (acc :: ppgtt \<times> byte list).
      phys_addr (pml4 (fst acc)) (tpath (Suc n) c) \<noteq> None)"
  define Post where "Post = (\<lambda>c (acc :: ppgtt \<times> byte list).
      \<forall>a. S \<le> a \<and> a \<le> E \<and> a div ?B = c div ?B \<longrightarrow>
          (\<forall>m \<le> n. pml4 (fst acc) (tpath m a) \<noteq> None))"
  have body: "\<exists>acc'. nmap n S E c acc = Some acc' \<and> extends acc acc' \<and> alloc acc \<le> alloc acc' \<and>
                    alloc acc' \<le> alloc acc + budget n \<and> Post c acc'"
    if "V c" "c < ?hi" "0 < alloc acc" "alloc acc + budget n < 2 ^ 52" "Pre c acc" for c acc
  proof -
    from that(1,2) have m: "meets n c S E"
      using child_meets(1) [OF Suc.prems(2)] by (simp add: V_def)
    from that(5) have p: "phys_addr (pml4 (fst acc)) (tpath (Suc n) c) \<noteq> None"
      by (simp add: Pre_def)
    from Suc.IH [OF n3(1) m p that(3,4)] show ?thesis unfolding Post_def .
  qed
  have valid: "V (c + ?B)" if "V c" "c < ?hi" for c using that by (simp add: V_def)
  have pre: "Pre c acc'" if "Pre c acc" "extends acc acc'" for c acc acc'
    using that(2) that(1) [unfolded Pre_def] unfolding Pre_def by (rule extends_phys_addr)
  have post: "Post c acc'" if "Post c acc" "extends acc acc'" for c acc acc'
    using that(1) extends_present [OF that(2)] unfolding Post_def by blast
  have Bpos: "0 < ?B" by simp
  obtain lo' where lo: "?lo = lo' * ?B" using meets_blocks [OF Suc.prems(2)] by metis
  have v0: "V ?lo" unfolding V_def lo by simp
  have cnt: "?hi < ?lo + 512 * ?B" by (rule loop_count [OF Suc.prems(2)])
  have a1: "0 < alloc acc1" using r(3) Suc.prems(4) by simp
  have a2: "alloc acc1 + budget n * 512 < 2 ^ 52" using r(4) w Suc.prems(5) by simp
  have p0: "\<forall>j. ?lo + j * ?B < ?hi \<longrightarrow> Pre (?lo + j * ?B) acc1"
  proof (intro allI impI)
    fix j assume j: "?lo + j * ?B < ?hi"
    let ?c = "?lo + j * ?B"
    have vc: "?B dvd ?c" "?lo \<le> ?c" unfolding lo by simp_all
    note cm = child_meets [OF Suc.prems(2) vc j]
    from cm(1) obtain a where a: "S \<le> a" "a \<le> E" "a div ?B = ?c div ?B"
      by (rule meets_address)
    from a(3) cm(2) have "a div 2 ^ shift (Suc (Suc n)) = P div 2 ^ shift (Suc (Suc n))"
      by (simp only: parent_block [of _ "Suc n"])
    from top [OF a(1,2) this] show "Pre ?c acc1"
      unfolding Pre_def tpath_same_block [OF a(3)] by (simp add: phys_addr_def)
  qed
  have "\<exists>acc'. gloop ?B (nmap n S E) ?hi ?lo acc1 = Some acc' \<and> extends acc1 acc' \<and>
          alloc acc1 \<le> alloc acc' \<and> alloc acc' \<le> alloc acc1 + budget n * 512 \<and>
          (\<forall>j. ?lo + j * ?B < ?hi \<longrightarrow> Post (?lo + j * ?B) acc')"
    by (rule gloop_maps [where V = V and Pre = Pre and Post = Post and body = "nmap n S E"
          and hi = ?hi and B = ?B and bud = "budget n" and c = ?lo and k = 512 and acc = acc1,
          OF body valid pre post Bpos v0 cnt a1 a2 p0])
  then obtain acc' where g: "gloop ?B (nmap n S E) ?hi ?lo acc1 = Some acc'" "extends acc1 acc'"
    "alloc acc1 \<le> alloc acc'" "alloc acc' \<le> alloc acc1 + budget n * 512"
    "\<forall>j. ?lo + j * ?B < ?hi \<longrightarrow> Post (?lo + j * ?B) acc'"
    by blast
  have res: "nmap (Suc n) S E P acc = Some acc'" using r(1) g(1) by (simp add: nmap.simps)
  have cov: "\<forall>a. S \<le> a \<and> a \<le> E \<and> a div 2 ^ shift (Suc (Suc n)) = P div 2 ^ shift (Suc (Suc n)) \<longrightarrow>
               (\<forall>m \<le> Suc n. pml4 (fst acc') (tpath m a) \<noteq> None)"
  proof (intro allI impI, elim conjE)
    fix a m :: nat
    assume a: "S \<le> a" "a \<le> E"
        "a div 2 ^ shift (Suc (Suc n)) = P div 2 ^ shift (Suc (Suc n))"
      and m: "m \<le> Suc n"
    show "pml4 (fst acc') (tpath m a) \<noteq> None"
    proof (cases "m = Suc n")
      case True
      show ?thesis unfolding True by (rule extends_present [OF g(2) top [OF a]])
    next
      case False
      with m have mn: "m \<le> n" by simp
      obtain j where j: "?lo + j * ?B < ?hi" "a div ?B = (?lo + j * ?B) div ?B"
        by (rule child_of_address [OF Suc.prems(2) a])
      from g(5) [rule_format, OF j(1)] have "Post (?lo + j * ?B) acc'" .
      then have p: "\<forall>x. S \<le> x \<and> x \<le> E \<and> x div ?B = (?lo + j * ?B) div ?B \<longrightarrow>
          (\<forall>m \<le> n. pml4 (fst acc') (tpath m x) \<noteq> None)"
        unfolding Post_def .
      have c: "S \<le> a \<and> a \<le> E \<and> a div ?B = (?lo + j * ?B) div ?B"
        using a(1,2) j(2) by (intro conjI)
      from p [rule_format, of a m, OF c mn] show ?thesis .
    qed
  qed
  show ?case
  proof (intro exI conjI)
    show "nmap (Suc n) S E P acc = Some acc'" by (rule res)
    show "extends acc acc'" using r(2) g(2) by (rule extends_trans)
    show "alloc acc \<le> alloc acc'" using g(3) r(3) by simp
    show "alloc acc' \<le> alloc acc + budget (Suc n)" using g(4) r(4) w by simp
    show "\<forall>a. S \<le> a \<and> a \<le> E \<and> a div 2 ^ shift (Suc (Suc n)) = P div 2 ^ shift (Suc (Suc n)) \<longrightarrow>
               (\<forall>m \<le> Suc n. pml4 (fst acc') (tpath m a) \<noteq> None)"
      by (rule cov)
  qed
qed


lemma nmap_noop:
  "n \<le> 3 \<Longrightarrow> meets n P S E \<Longrightarrow> phys_addr (pml4 (fst acc)) (tpath (Suc n) P) \<noteq> None \<Longrightarrow>
   (\<forall>a. S \<le> a \<and> a \<le> E \<and> a div 2 ^ shift (Suc n) = P div 2 ^ shift (Suc n) \<longrightarrow>
        (\<forall>m \<le> n. pml4 (fst acc) (tpath m a) \<noteq> None)) \<Longrightarrow>
   nmap n S E P acc = Some acc"
proof (induction n arbitrary: P)
  case 0
  let ?s = "pidx 0 (block_lo 0 P S)" and ?e = "pidx 0 (block_hi 0 P E)"
  have slots: "pml4 (fst acc) (tpath (Suc 0) P @ [i]) \<noteq> None" if si: "?s \<le> i" "i \<le> ?e" for i
  proof -
    obtain a where a: "S \<le> a" "a \<le> E" "a div 2 ^ shift (Suc 0) = P div 2 ^ shift (Suc 0)"
      "pidx 0 a = i"
      by (rule index_has_address [OF "0.prems"(2) si])
    have c: "S \<le> a \<and> a \<le> E \<and> a div 2 ^ shift (Suc 0) = P div 2 ^ shift (Suc 0)"
      using a(1-3) by (intro conjI)
    have "pml4 (fst acc) (tpath 0 a) \<noteq> None"
      by (rule "0.prems"(4) [rule_format, OF c]) simp
    moreover have "tpath 0 a = tpath (Suc 0) P @ [i]"
      using tpath_Suc [of 0 a] tpath_same_block [OF a(3)] a(4) by simp
    ultimately show ?thesis by simp
  qed
  have "populate_next acc (tpath (Suc 0) P) ?s ?e 1 = Some acc"
    using "0.prems"(3) slots by (intro populate_next_noop)
  then show ?case by (simp add: nmap.simps)
next
  case (Suc n)
  let ?s = "pidx (Suc n) (block_lo (Suc n) P S)" and ?e = "pidx (Suc n) (block_hi (Suc n) P E)"
  let ?lo = "block_lo (Suc n) P S" and ?hi = "block_hi (Suc n) P E"
  let ?B = "(2::nat) ^ shift (Suc n)"
  have n3: "n \<le> 3" "Suc n < 4" using Suc.prems(1) by simp_all
  have cover: "pml4 (fst acc) (tpath m a) \<noteq> None"
    if "S \<le> a" "a \<le> E" "a div 2 ^ shift (Suc (Suc n)) = P div 2 ^ shift (Suc (Suc n))"
      "m \<le> Suc n" for a m
  proof -
    have c: "S \<le> a \<and> a \<le> E \<and> a div 2 ^ shift (Suc (Suc n)) = P div 2 ^ shift (Suc (Suc n))"
      using that(1-3) by (intro conjI)
    show ?thesis by (rule Suc.prems(4) [rule_format, OF c that(4)])
  qed
  have slots: "pml4 (fst acc) (tpath (Suc (Suc n)) P @ [i]) \<noteq> None" if si: "?s \<le> i" "i \<le> ?e" for i
  proof -
    obtain a where a: "S \<le> a" "a \<le> E"
      "a div 2 ^ shift (Suc (Suc n)) = P div 2 ^ shift (Suc (Suc n))" "pidx (Suc n) a = i"
      by (rule index_has_address [OF Suc.prems(2) si])
    have "pml4 (fst acc) (tpath (Suc n) a) \<noteq> None" by (rule cover [OF a(1-3)]) simp
    moreover have "tpath (Suc n) a = tpath (Suc (Suc n)) P @ [i]"
      using tpath_Suc [OF n3(2), of a] tpath_same_block [OF a(3)] a(4) by simp
    ultimately show ?thesis by simp
  qed
  have first: "populate_next acc (tpath (Suc (Suc n)) P) ?s ?e (Suc (Suc n)) = Some acc"
    using Suc.prems(3) slots by (intro populate_next_noop)
  define V where "V = (\<lambda>c. ?B dvd c \<and> ?lo \<le> c)"
  have step: "nmap n S E c acc = Some acc \<and> V (c + ?B)" if vh: "V c" "c < ?hi" for c
  proof
    from vh(1) have vc: "?B dvd c" "?lo \<le> c" by (simp_all add: V_def)
    note cm = child_meets [OF Suc.prems(2) vc vh(2)]
    obtain a where a: "S \<le> a" "a \<le> E" "a div ?B = c div ?B"
      by (rule meets_address [OF cm(1)])
    from a(3) cm(2) have up: "a div 2 ^ shift (Suc (Suc n)) = P div 2 ^ shift (Suc (Suc n))"
      by (simp only: parent_block [of _ "Suc n"])
    have "pml4 (fst acc) (tpath (Suc n) a) \<noteq> None" by (rule cover [OF a(1,2) up]) simp
    then have t: "phys_addr (pml4 (fst acc)) (tpath (Suc n) c) \<noteq> None"
      unfolding tpath_same_block [OF a(3)] by (simp add: phys_addr_def)
    have below: "\<forall>x. S \<le> x \<and> x \<le> E \<and> x div ?B = c div ?B \<longrightarrow>
        (\<forall>m \<le> n. pml4 (fst acc) (tpath m x) \<noteq> None)"
    proof (intro allI impI, elim conjE)
      fix x m assume x: "S \<le> x" "x \<le> E" "x div ?B = c div ?B" and m: "m \<le> n"
      from x(3) cm(2) have "x div 2 ^ shift (Suc (Suc n)) = P div 2 ^ shift (Suc (Suc n))"
        by (simp only: parent_block [of _ "Suc n"])
      from cover [OF x(1,2) this] m show "pml4 (fst acc) (tpath m x) \<noteq> None" by simp
    qed
    show "nmap n S E c acc = Some acc" by (rule Suc.IH [OF n3(1) cm(1) t below])
    show "V (c + ?B)" using vc by (simp add: V_def)
  qed
  obtain lo' where lo: "?lo = lo' * ?B" using meets_blocks [OF Suc.prems(2)] by metis
  have v0: "V ?lo" unfolding V_def lo by simp
  have "gloop ?B (nmap n S E) ?hi ?lo acc = Some acc"
    by (rule gloop_noop [where V = V and body = "nmap n S E" and hi = ?hi and B = ?B
          and acc = acc, OF step v0])
  then show ?case using first by (simp add: nmap.simps)
qed

lemma budget_3: "budget 3 = 68853957120"
  by (simp add: numeral_3_eq_3)

lemma meets_root:
  assumes "S \<le> E" "E < 2 ^ 48"
  shows "meets 3 0 S E"
  using assms by (simp add: meets_def)

lemma root_block:
  assumes "a \<le> E" "E < 2 ^ 48"
  shows "(a::nat) div 2 ^ shift (Suc 3) = 0 div 2 ^ shift (Suc 3)"
  using assms by simp



end
